theory Spec2Isabelle
  imports Main
begin

section \<open>Proxy health checks (dataManager helper checkProxies.js)\<close>

text \<open>
  One entry of the DataManager's \<open>proxies\<close> array. \<open>proxy\<close> is \<open>None\<close> for the entry
  that stands for the direct connection (\<open>null\<close> in the source).
\<close>

record proxy_record =
  proxyIndex :: nat
  proxy :: "string option"
  isOnline :: bool
  lastOnlineCheck :: int

text \<open>
  How the promise returned by \<open>checkConnection\<close> settles. It resolves or rejects with a
  response object whose \<open>statusCode\<close> is a number or \<open>null\<close>; a network failure and the
  timeout (\<open>throwTimeout = true\<close>) are rejections.
\<close>

datatype probe = Resolved "int option" | Rejected "int option"

datatype js_error = TypeError

text \<open>
  \<open>checkProxy(proxyIndex)\<close>, run to completion with the outcome of its probe and the value
  \<open>Date.now()\<close> has when the probe has settled. Reading \<open>thisProxy.proxy\<close> of an index
  outside the array throws inside the async function, which rejects its promise.
  \<open>splitProxyString\<close> only prepares the argument of the probe. In
  \<open>res.statusCode >= 200\<close> a \<open>null\<close> status code converts to 0.
\<close>

definition checkProxy ::
  "proxy_record list \<Rightarrow> nat \<Rightarrow> probe \<Rightarrow> int \<Rightarrow> js_error + (bool \<times> proxy_record list)" where
  "checkProxy proxies idx res now =
     (if idx < length proxies then
        let thisProxy = proxies ! idx;
            online = (case res of
                        Resolved statusCode \<Rightarrow>
                          (case statusCode of
                             None \<Rightarrow> False
                           | Some c \<Rightarrow> c \<ge> 200 \<and> c < 300)
                      | Rejected _ \<Rightarrow> False);
            thisProxy' = thisProxy\<lparr>isOnline := online, lastOnlineCheck := now\<rparr>
        in Inr (isOnline thisProxy', proxies[idx := thisProxy'])
      else Inl TypeError)"

text \<open>
  \<open>checkAllProxies()\<close> calls \<open>checkProxy(e.proxyIndex)\<close> for every entry \<open>e\<close> in array
  order and awaits \<open>Promise.all\<close> of the returned promises. The calls run concurrently:
  each one is suspended at its probe, and its continuation (the update of the record) runs
  when the probe settles, in whatever order the network decides.

  The state between two such continuations: the array, the calls whose probe has not
  settled yet (position in \<open>promiseArr\<close>, together with the index the call was given), and
  whether one of the promises has rejected.
\<close>

record check_all_state =
  proxies :: "proxy_record list"
  pending :: "(nat \<times> nat) list"
  failed :: bool

datatype promise_state = Pending | Fulfilled | RejectedPromise

text \<open>
  The state after the synchronous part: the \<open>forEach\<close> has pushed one promise for every
  entry. A call whose index is outside the array has rejected already (its body threw
  before any probe was started).
\<close>

definition checkAllProxies_start :: "proxy_record list \<Rightarrow> check_all_state" where
  "checkAllProxies_start ps =
     \<lparr>proxies = ps,
      pending = filter (\<lambda>(k, idx). idx < length ps)
                  (map (\<lambda>k. (k, proxyIndex (ps ! k))) [0..<length ps]),
      failed = list_ex (\<lambda>e. \<not> proxyIndex e < length ps) ps\<rparr>"

text \<open>
  The probe of the call at position \<open>k\<close> settles with \<open>res\<close> at time \<open>now\<close>: the rest of that
  \<open>checkProxy\<close> runs. A probe settles once; an event for a call that is not pending
  is ignored.
\<close>

definition settle :: "nat \<times> probe \<times> int \<Rightarrow> check_all_state \<Rightarrow> check_all_state" where
  "settle ev st =
     (case ev of (k, res, now) \<Rightarrow>
        (case map_of (pending st) k of
           None \<Rightarrow> st
         | Some idx \<Rightarrow>
             (case checkProxy (proxies st) idx res now of
                Inr (_, ps') \<Rightarrow>
                  st\<lparr>proxies := ps', pending := filter (\<lambda>(j, _). j \<noteq> k) (pending st)\<rparr>
              | Inl _ \<Rightarrow>
                  st\<lparr>failed := True, pending := filter (\<lambda>(j, _). j \<noteq> k) (pending st)\<rparr>)))"

text \<open>
  \<open>Promise.all\<close>: rejected as soon as one promise has rejected, fulfilled once every
  promise is fulfilled, pending until then. \<open>checkAllProxies\<close> awaits it and does nothing
  else, so this is the state of its own promise.
\<close>

definition checkAllProxies_promise :: "check_all_state \<Rightarrow> promise_state" where
  "checkAllProxies_promise st =
     (if failed st then RejectedPromise
      else if pending st = [] then Fulfilled
      else Pending)"

definition checkAllProxies :: "proxy_record list \<Rightarrow> (nat \<times> probe \<times> int) list \<Rightarrow> check_all_state" where
  "checkAllProxies ps evs = fold settle evs (checkAllProxies_start ps)"

text \<open>
  The DataManager numbers the entries of \<open>proxies\<close> by their position when it builds the
  array (in its import code, which is not among the files verified here).
\<close>

definition proxies_indexed :: "proxy_record list \<Rightarrow> bool" where
  "proxies_indexed ps = (map proxyIndex ps = [0..<length ps])"


text \<open>
  The test \<open>checkProxy\<close> applies to a settled probe, as a predicate of its own.
\<close>

definition probe_succeeded :: "probe \<Rightarrow> bool" where
  "probe_succeeded res = (case res of Resolved (Some c) \<Rightarrow> 200 \<le> c \<and> c \<le> 299 | _ \<Rightarrow> False)"

text \<open>
  What holds between any two continuations when the entries are numbered by position:
  no promise has rejected, a pending call targets its own position, and every entry whose
  call is no longer pending carries the outcome and the time of a probe that has settled
  (\<open>seen\<close> are the events so far).
\<close>

definition check_inv :: "nat \<Rightarrow> (nat \<times> probe \<times> int) set \<Rightarrow> check_all_state \<Rightarrow> bool" where
  "check_inv n seen st =
     (length (proxies st) = n \<and> map proxyIndex (proxies st) = [0..<n] \<and> \<not> failed st \<and>
      (\<forall>(k, idx) \<in> set (pending st). idx = k \<and> k < n) \<and>
      (\<forall>i<n. i \<in> fst ` set (pending st) \<or>
         (\<exists>res now. (i, res, now) \<in> seen \<and> isOnline (proxies st ! i) = probe_succeeded res
            \<and> lastOnlineCheck (proxies st ! i) = now)) \<and>
      (\<forall>(k, res, now) \<in> seen. k \<notin> fst ` set (pending st)))"


section \<open>Accounts\<close>

text \<open>
  The part of a SteamUser object the verified code reads. A property that is
  \<open>undefined\<close> or \<open>null\<close> is \<open>None\<close>: both compare equal to \<open>undefined\<close> with \<open>!=\<close>, both
  are falsy. \<open>myFriends\<close> maps SteamID64 strings to relationship codes (3 is Friend,
  1 is Blocked); its keys are enumerated in insertion order.
\<close>

record limitations_obj =
  limited :: "bool option"

record steam_user =
  limitations :: "limitations_obj option"
  myFriends :: "(string \<times> nat) list"

text \<open>
  The test \<open>limitations && limitations.limited == true\<close> of the friend commands; the
  limited check writes it \<open>limitations != undefined && limitations.limited != undefined\<close>
  followed by \<open>limitations.limited == true\<close>, which is the same predicate. An account could
  not be checked when \<open>limitations\<close> or \<open>limitations.limited\<close> is undefined.
\<close>

definition limited_is_true :: "steam_user \<Rightarrow> bool" where
  "limited_is_true acc =
     (case limitations acc of None \<Rightarrow> False | Some l \<Rightarrow> limited l = Some True)"

definition uncheckable :: "steam_user \<Rightarrow> bool" where
  "uncheckable acc =
     (case limitations acc of None \<Rightarrow> True | Some l \<Rightarrow> limited l = None)"

section \<open>Counting limited accounts (controller/helpers/limitedcheck.js)\<close>

text \<open>
  \<open>botobject\<close> is read only through \<open>botobject[Object.keys(botobject)[i]]\<close>, the value of
  its \<open>i\<close>-th key: it is modelled as the list of these values, \<open>None\<close> for a value that
  is \<open>undefined\<close> or \<open>null\<close>. The optional callback either is missing or is a function,
  which may throw (\<open>True\<close>) on the arguments it is given.
\<close>

datatype callback = NoCallback | Callback "nat \<Rightarrow> nat \<Rightarrow> bool"

text \<open>
  How the \<open>for\<close> loop inside \<open>try\<close> ends: it runs to its end, or a statement throws. Both
  carry the invocations of the callback made so far; a throw also carries the counters
  the \<open>catch\<close> block will read.
\<close>

datatype loop_end = Completed "(nat \<times> nat) list" | Threw nat nat "(nat \<times> nat) list"

fun check_loop :: "steam_user option list \<Rightarrow> callback \<Rightarrow> nat \<Rightarrow> nat \<Rightarrow> loop_end" where
  "check_loop [] cb limitedaccs failedtocheck = Completed []"
| "check_loop (e # rest) cb limitedaccs failedtocheck =
     (case e of
        None \<Rightarrow> Threw limitedaccs failedtocheck []
      | Some acc \<Rightarrow>
          (let counters =
                 (case limitations acc of
                    None \<Rightarrow> (limitedaccs, failedtocheck + 1)
                  | Some l \<Rightarrow>
                      (case limited l of
                         None \<Rightarrow> (limitedaccs, failedtocheck + 1)
                       | Some b \<Rightarrow>
                           (if b = True then (limitedaccs + 1, failedtocheck)
                            else (limitedaccs, failedtocheck))));
               limitedaccs' = fst counters;
               failedtocheck' = snd counters
           in if rest = [] \<and> limitedaccs' > 0 then
                (case cb of
                   NoCallback \<Rightarrow> Threw limitedaccs' failedtocheck' []
                 | Callback f \<Rightarrow>
                     (if f limitedaccs' failedtocheck'
                      then Threw limitedaccs' failedtocheck' [(limitedaccs', failedtocheck')]
                      else Completed [(limitedaccs', failedtocheck')]))
              else check_loop rest cb limitedaccs' failedtocheck'))"

text \<open>
  What one run of \<open>check\<close> does: the invocations of the callback with their arguments, the
  number of error lines logged, and whether an exception leaves the function (the
  \<open>catch\<close> block calls the callback itself, outside any \<open>try\<close>).
\<close>

record check_outcome =
  invocations :: "(nat \<times> nat) list"
  errors_logged :: nat
  escaped :: bool

definition check :: "steam_user option list \<Rightarrow> callback \<Rightarrow> check_outcome" where
  "check botobject cb =
     (case check_loop botobject cb 0 0 of
        Completed calls \<Rightarrow> \<lparr>invocations = calls, errors_logged = 0, escaped = False\<rparr>
      | Threw limitedaccs failedtocheck calls \<Rightarrow>
          (case cb of
             NoCallback \<Rightarrow> \<lparr>invocations = calls, errors_logged = 1, escaped = True\<rparr>
           | Callback f \<Rightarrow>
               \<lparr>invocations = calls @ [(limitedaccs, failedtocheck)], errors_logged = 1,
                escaped = f limitedaccs failedtocheck\<rparr>))"

section \<open>Friend commands (commands/core/friend.js)\<close>

subsection \<open>What the commands read\<close>

text \<open>
  A Bot object (its account index and its SteamUser), and the parts of the controller and
  of the DataManager the three commands read: \<open>info.readyAfter\<close>, \<open>main\<close>, the array
  returned by \<open>getBots()\<close> (the accounts that are online) and \<open>cachefile.ownerid\<close>.
\<close>

record bot =
  index :: nat
  user :: steam_user

record controller =
  readyAfter :: nat
  main :: bot
  bots :: "bot list"
  ownerid :: "string list"

record resInfo =
  userID :: "string option"
  fromSteamChat :: bool
  ownerIDs :: "string list option"

text \<open>
  What the commands' collaborators answer; their code is not among the files verified
  here and their answers are inputs. \<open>resolve\<close> is the callback of
  \<open>handleSteamIdResolving\<close> (\<open>Inl err\<close> or \<open>Inr steamID64\<close>), \<open>addFriendError\<close> the \<open>err\<close>
  argument of the callback of \<open>user.addFriend\<close> for an account and a profile, \<open>remaining\<close>
  the argument of the callback of \<open>friendListCapacityCheck\<close> for an account (\<open>None\<close> is
  \<open>null\<close>, reported on failure). \<open>user.removeFriend\<close> takes no callback.
\<close>

record env =
  resolve :: "string option \<Rightarrow> string + string"
  addFriendError :: "nat \<Rightarrow> string \<Rightarrow> string option"
  remaining :: "nat \<Rightarrow> int option"

subsection \<open>What the commands do\<close>

text \<open>
  Responses are named by their language key, log lines by their content. A call of the
  remote capability names the account by its index and the profile by its SteamID64;
  \<open>new SteamID(id)\<close> is taken to succeed on the identifiers met here, which come from the
  resolver, from the chat and from the keys of \<open>myFriends\<close>.
\<close>

datatype response =
    BotNotReady
  | InvalidProfileId "string option"
  | AddFriendCmdAccLimited string
  | AddFriendCmdSuccess string nat
  | NoIdParam
  | UnfriendCmdSuccess
  | CommandOwnerOnly
  | IdIsOwnerError
  | UnfriendIdCmdSuccess string
  | UnfriendAllCmdAbort
  | UnfriendAllCmdPending
  | UnfriendAllCmdStart

datatype log_level = Info | Warn | Error | Debug

datatype log_line =
    AddingFriend string nat
  | CantAddLimited string nat
  | ErrorAdding string nat string
  | AddedFriend string nat
  | FriendlistSpaceLow nat "int option"
  | AlreadyFriendOrBlocked nat string
  | RemovingFriendFromAll string
  | RemovedFriendFromAll string
  | UnfriendAllAborted
  | StartingToUnfriend
  | RemovingFriend string
  | OwnerSkipped string

datatype remote_call = AddFriend nat string | RemoveFriend nat string

text \<open>
  The closures handed to \<open>setTimeout\<close>, with what each captures: the Bot object \<open>e\<close> and
  the resolved id (addfriend, unfriend); the cell of its invocation's \<open>abortunfriendall\<close>
  variable (the 30 second callback of unfriendall); the loop index \<open>i\<close> and the key
  \<open>friend\<close> (the removals of unfriendall, which read \<open>getBots()[i]\<close> when they fire).
\<close>

datatype task =
    AddFriendTask bot string
  | UnfriendTask bot string
  | UnfriendAllStart nat
  | UnfriendAllItem nat string

datatype effect =
    Respond response
  | Log log_level log_line
  | SetTimeout nat task
  | Remote remote_call
  | Uncaught js_error

definition timers :: "effect list \<Rightarrow> (nat \<times> task) list" where
  "timers effs = concat (map (\<lambda>x. case x of SetTimeout d t \<Rightarrow> [(d, t)] | _ \<Rightarrow> []) effs)"

definition remote_calls :: "effect list \<Rightarrow> remote_call list" where
  "remote_calls effs = concat (map (\<lambda>x. case x of Remote r \<Rightarrow> [r] | _ \<Rightarrow> []) effs)"

definition logged :: "log_level \<Rightarrow> effect list \<Rightarrow> log_line list" where
  "logged lvl effs =
     concat (map (\<lambda>x. case x of Log l m \<Rightarrow> (if l = lvl then [m] else []) | _ \<Rightarrow> []) effs)"

text \<open>
  \<open>Array.prototype.forEach\<close> and the indexed \<open>for\<close> loop: the body runs on element \<open>i\<close>
  and \<open>i\<close>, for \<open>i\<close> from 0 to the length.
\<close>

definition forEach :: "'a list \<Rightarrow> ('a \<Rightarrow> nat \<Rightarrow> effect list) \<Rightarrow> effect list" where
  "forEach xs body = concat (map (\<lambda>i. body (xs ! i) i) [0..<length xs])"

text \<open>
  \<open>args[0]\<close> (undefined for an empty array), and JavaScript's truthiness of a string that
  may be undefined: the empty string is falsy too.
\<close>

definition arg0 :: "string list \<Rightarrow> string option" where
  "arg0 args = (case args of [] \<Rightarrow> None | a # _ \<Rightarrow> Some a)"

definition truthy :: "string option \<Rightarrow> bool" where
  "truthy v = (case v of None \<Rightarrow> False | Some str \<Rightarrow> str \<noteq> [])"

text \<open>
  \<open>e.user.myFriends[res] != 3 && e.user.myFriends[res] != 1\<close>: a missing key is
  \<open>undefined\<close>, which differs from both.
\<close>

definition notFriendNorBlocked :: "bot \<Rightarrow> string \<Rightarrow> bool" where
  "notFriendNorBlocked e res =
     (map_of (myFriends (user e)) res \<noteq> Some 3 \<and> map_of (myFriends (user e)) res \<noteq> Some 1)"

text \<open>
  \<open>remaining < 25\<close> where \<open>remaining\<close> is a number or \<open>null\<close>: \<open>null\<close> converts to 0.
\<close>

definition remainingBelow25 :: "int option \<Rightarrow> bool" where
  "remainingBelow25 r = (case r of None \<Rightarrow> (0::int) < 25 | Some v \<Rightarrow> v < 25)"

subsection \<open>addfriend\<close>

definition addFriend_run :: "env \<Rightarrow> controller \<Rightarrow> string list \<Rightarrow> effect list" where
  "addFriend_run ev c args =
     (if readyAfter c = 0 then [Respond BotNotReady]
      else if \<not> truthy (arg0 args) then [Respond (InvalidProfileId None)]
      else
        (case resolve ev (arg0 args) of
           Inl err \<Rightarrow> [Respond (InvalidProfileId (Some err))]
         | Inr res \<Rightarrow>
             (if limited_is_true (user (main c)) then [Respond (AddFriendCmdAccLimited res)]
              else
                [Respond (AddFriendCmdSuccess res (5 * length (bots c))),
                 Log Info (AddingFriend res (5 * length (bots c)))]
                @ forEach (bots c) (\<lambda>e i.
                    if limited_is_true (user e) then [Log Error (CantAddLimited res (index e))]
                    else if notFriendNorBlocked e res
                      then [SetTimeout (5000 * i) (AddFriendTask e res)]
                      else [Log Warn (AlreadyFriendOrBlocked (index e) res)]))))"

subsection \<open>unfriend\<close>

text \<open>
  The owner list a request is checked against: \<open>resInfo.ownerIDs\<close> when it is present
  and not empty, \<open>cachefile.ownerid\<close> otherwise. \<open>owners.includes(resInfo.userID)\<close> is
  false for an undefined \<open>userID\<close>.
\<close>

definition requestOwners :: "controller \<Rightarrow> resInfo \<Rightarrow> string list" where
  "requestOwners c ri =
     (case ownerIDs ri of
        None \<Rightarrow> ownerid c
      | Some ids \<Rightarrow> if length ids > 0 then ids else ownerid c)"

definition requesterIsOwner :: "controller \<Rightarrow> resInfo \<Rightarrow> bool" where
  "requesterIsOwner c ri =
     (case userID ri of None \<Rightarrow> False | Some u \<Rightarrow> u \<in> set (requestOwners c ri))"

text \<open>The \<open>else\<close> branch of the command: unfriending a given profile, for owners only.\<close>

definition unfriend_id :: "env \<Rightarrow> controller \<Rightarrow> string list \<Rightarrow> resInfo \<Rightarrow> effect list" where
  "unfriend_id ev c args ri =
     (if \<not> requesterIsOwner c ri then [Respond CommandOwnerOnly]
      else
        (case resolve ev (arg0 args) of
           Inl err \<Rightarrow> [Respond (InvalidProfileId (Some err))]
         | Inr res \<Rightarrow>
             (if res \<in> set (ownerid c) then [Respond IdIsOwnerError]
              else
                forEach (bots c) (\<lambda>e i. [SetTimeout (1000 * i) (UnfriendTask e res)])
                @ [Respond (UnfriendIdCmdSuccess res), Log Info (RemovedFriendFromAll res)])))"

definition unfriend_run :: "env \<Rightarrow> controller \<Rightarrow> string list \<Rightarrow> resInfo \<Rightarrow> effect list" where
  "unfriend_run ev c args ri =
     (if readyAfter c = 0 then [Respond BotNotReady]
      else if \<not> truthy (arg0 args) \<and> \<not> fromSteamChat ri then [Respond NoIdParam]
      else
        (case userID ri of
           None \<Rightarrow> unfriend_id ev c args ri
         | Some requester \<Rightarrow>
             (if \<not> truthy (arg0 args) \<and> requester \<noteq> [] \<and> fromSteamChat ri then
                [Respond UnfriendCmdSuccess, Log Info (RemovingFriendFromAll requester)]
                @ forEach (bots c) (\<lambda>e i. [SetTimeout (1000 * i) (UnfriendTask e requester)])
              else unfriend_id ev c args ri)))"

subsection \<open>unfriendall\<close>

text \<open>
  \<open>var abortunfriendall\<close> is declared inside \<open>run\<close>: every invocation has a variable of its
  own, which only the closures created by that invocation can reach. The store \<open>cells\<close>
  holds one cell per invocation so far (\<open>undefined\<close> and \<open>false\<close> are both \<open>False\<close>: the
  variable is only tested for truthiness); an invocation allocates the next cell.
\<close>

definition unfriendall_run ::
  "controller \<Rightarrow> string list \<Rightarrow> bool list \<Rightarrow> bool list \<times> effect list" where
  "unfriendall_run c args cells =
     (if readyAfter c = 0 then (cells @ [False], [Respond BotNotReady])
      else if arg0 args = Some ''abort'' then (cells @ [True], [Respond UnfriendAllCmdAbort])
      else (cells @ [False],
            [Respond UnfriendAllCmdPending, SetTimeout 30000 (UnfriendAllStart (length cells))]))"

subsection \<open>When a timer fires\<close>

text \<open>
  The body of each closure, run with the controller and the store as they are when the
  timer fires. An exception thrown in a timer callback is not caught by the command.
\<close>

definition fire :: "env \<Rightarrow> controller \<Rightarrow> bool list \<Rightarrow> task \<Rightarrow> effect list" where
  "fire ev c cells t =
     (case t of
        AddFriendTask e res \<Rightarrow>
          [Remote (AddFriend (index e) res)]
          @ (case addFriendError ev (index e) res of
               Some err \<Rightarrow> [Log Error (ErrorAdding res (index e) err)]
             | None \<Rightarrow> [Log Info (AddedFriend res (index e))])
          @ (if remainingBelow25 (remaining ev (index e))
             then [Log Warn (FriendlistSpaceLow (index e) (remaining ev (index e)))]
             else [])
      | UnfriendTask e res \<Rightarrow> [Remote (RemoveFriend (index e) res)]
      | UnfriendAllStart k \<Rightarrow>
          (if k < length cells \<and> cells ! k then [Log Info UnfriendAllAborted]
           else
             [Respond UnfriendAllCmdStart, Log Info StartingToUnfriend]
             @ forEach (bots c) (\<lambda>e i.
                 map (\<lambda>friend. SetTimeout (1000 * i) (UnfriendAllItem i friend))
                   (map fst (myFriends (user e)))))
      | UnfriendAllItem i friend \<Rightarrow>
          (if friend \<notin> set (ownerid c) then
             Log Info (RemovingFriend friend)
             # (if i < length (bots c) then [Remote (RemoveFriend (index (bots c ! i)) friend)]
                else [Uncaught TypeError])
           else [Log Debug (OwnerSkipped friend)]))"

text \<open>
  The timers of one command run to completion: they fire in the order of their delays,
  timers of equal delay in the order they were set; the timers set by a firing timer
  (only the 30 second callback of unfriendall sets any) fire after it.
\<close>

definition fire_all :: "env \<Rightarrow> controller \<Rightarrow> bool list \<Rightarrow> (nat \<times> task) list \<Rightarrow> effect list" where
  "fire_all ev c cells ts = concat (map (\<lambda>(d, t). fire ev c cells t) (sort_key fst ts))"

definition run_timers :: "env \<Rightarrow> controller \<Rightarrow> bool list \<Rightarrow> effect list \<Rightarrow> effect list" where
  "run_timers ev c cells effs =
     (let first = fire_all ev c cells (timers effs);
          second = fire_all ev c cells (timers first)
      in first @ second)"

subsection \<open>The limitation policy for comment and vote requests\<close>

text \<open>
  Modelled from the spec: the comment and vote commands are not among the files verified
  here. Section 4.6 (c) of the specification: "a request targeting a LIMITED session for
  a friend-list action is dropped with a reported (not retried) error; comment/vote
  actions are not blocked by limitation alone." Of the friend-list actions only the
  friend-add request is named here; removals are the unfriend commands above.
\<close>

datatype action_kind = FriendAdd | Comment | Vote

datatype decision = Issued | DroppedLimitationError

definition limitationPolicy :: "action_kind \<Rightarrow> steam_user \<Rightarrow> decision" where
  "limitationPolicy kind acc =
     (if kind = FriendAdd \<and> limited_is_true acc then DroppedLimitationError else Issued)"

subsection \<open>The friendlist capacity check\<close>

text \<open>
  Modelled from the spec: of \<open>Controller.prototype.friendListCapacityCheck\<close> the files hold
  the declaration with an empty body and its documentation ("Checks the remaining space
  on the friendlist of a bot account, sends a warning message if it is less than 10 and
  force unfriends oldest lastcomment db user to always keep room for 1 friend"); the body
  is missing. Section 4.4 of the specification: "computes remaining = maxCapacity -
  currentRelationshipCount from the live connectivity capability (not the ledger, which
  may lag). If remaining < warnThreshold (policy default 10), emit a warning signal once
  per check (not per relationship). If remaining < 1, force-remove the oldest entry in
  the session's relationshipLedger (by last-interaction timestamp, ties broken by
  insertion order) [...]; this removal is itself issued through ActionThrottler, not
  performed synchronously". The relationships counted are the entries of \<open>myFriends\<close>;
  the ledger lists peers with their last-interaction timestamps in insertion order. The
  check answers the signals it emits and \<open>remaining\<close>, the argument of its callback.
\<close>

record capacity_policy =
  maxCapacity :: int
  warnThreshold :: int

definition default_policy :: "int \<Rightarrow> capacity_policy" where
  "default_policy cap = \<lparr>maxCapacity = cap, warnThreshold = 10\<rparr>"

datatype capacity_signal = LowCapacityWarning nat int | QueuedRemoval nat string

fun oldest :: "(string \<times> int) list \<Rightarrow> (string \<times> int) option" where
  "oldest [] = None"
| "oldest (entry # ledger) =
     (case oldest ledger of
        None \<Rightarrow> Some entry
      | Some later \<Rightarrow> if snd later < snd entry then Some later else Some entry)"

definition friendListCapacityCheck ::
  "capacity_policy \<Rightarrow> bot \<Rightarrow> (string \<times> int) list \<Rightarrow> capacity_signal list \<times> int" where
  "friendListCapacityCheck pol b ledger =
     (let space = maxCapacity pol - int (length (myFriends (user b)))
      in ((if space < warnThreshold pol then [LowCapacityWarning (index b) space] else [])
          @ (if space < 1
             then (case oldest ledger of
                     None \<Rightarrow> []
                   | Some entry \<Rightarrow> [QueuedRemoval (index b) (fst entry)])
             else []),
          space))"

definition warnings :: "capacity_signal list \<Rightarrow> (nat \<times> int) list" where
  "warnings sigs =
     concat (map (\<lambda>x. case x of LowCapacityWarning n r \<Rightarrow> [(n, r)] | _ \<Rightarrow> []) sigs)"

section \<open>A small fleet\<close>

text \<open>
  Four accounts to run the commands on: \<open>bot0\<close> is unlimited and has a friend and the
  owner on its friendlist, \<open>bot1\<close> is limited, \<open>bot2\<close> is unlimited and is friends with
  the profile the examples add, \<open>bot3\<close> has no \<open>limitations\<close> object and no friends. The
  owner is 76561198000000099; \<open>addFriend\<close> times out for \<open>bot3\<close>, and \<open>bot0\<close> has 15 places
  left on its friendlist.
\<close>

definition bot0 :: bot where
  "bot0 = \<lparr>index = 0,
           user = \<lparr>limitations = Some \<lparr>limited = Some False\<rparr>,
                   myFriends = [(''76561198000000001'', 3), (''76561198000000099'', 3)]\<rparr>\<rparr>"

definition bot1 :: bot where
  "bot1 = \<lparr>index = 1,
           user = \<lparr>limitations = Some \<lparr>limited = Some True\<rparr>, myFriends = []\<rparr>\<rparr>"

definition bot2 :: bot where
  "bot2 = \<lparr>index = 2,
           user = \<lparr>limitations = Some \<lparr>limited = Some False\<rparr>,
                   myFriends = [(''76561198000000002'', 3)]\<rparr>\<rparr>"

definition bot3 :: bot where
  "bot3 = \<lparr>index = 3, user = \<lparr>limitations = None, myFriends = []\<rparr>\<rparr>"

definition fleet :: controller where
  "fleet = \<lparr>readyAfter = 12, main = bot0, bots = [bot0, bot1, bot2, bot3],
            ownerid = [''76561198000000099'']\<rparr>"

definition fleet_env :: env where
  "fleet_env =
     \<lparr>resolve = (\<lambda>a. case a of None \<Rightarrow> Inl ''no id given'' | Some str \<Rightarrow> Inr str),
      addFriendError = (\<lambda>n res. if n = 3 then Some ''Timeout'' else None),
      remaining = (\<lambda>n. if n = 0 then Some 15 else Some 120)\<rparr>"

definition owner_in_chat :: resInfo where
  "owner_in_chat =
     \<lparr>userID = Some ''76561198000000099'', fromSteamChat = True, ownerIDs = None\<rparr>"

text \<open>
  Two accounts with three friends each, none of them an owner.
\<close>

definition busy0 :: bot where
  "busy0 = \<lparr>index = 0,
            user = \<lparr>limitations = Some \<lparr>limited = Some False\<rparr>,
                    myFriends = [(''76561198000000011'', 3), (''76561198000000012'', 3),
                                 (''76561198000000013'', 3)]\<rparr>\<rparr>"

definition busy1 :: bot where
  "busy1 = \<lparr>index = 1,
            user = \<lparr>limitations = Some \<lparr>limited = Some False\<rparr>,
                    myFriends = [(''76561198000000021'', 3), (''76561198000000022'', 3),
                                 (''76561198000000023'', 3)]\<rparr>\<rparr>"

definition busy_fleet :: controller where
  "busy_fleet = \<lparr>readyAfter = 12, main = busy0, bots = [busy0, busy1],
                 ownerid = [''76561198000000099'']\<rparr>"

section \<open>Data kept over a restart (controller.js)\<close>

text \<open>
  JavaScript values as far as \<open>JSON\<close> text denotes them; strings are sequences of code
  units below 256, numbers are integers. \<open>undefined\<close> is no \<open>json\<close> value: a missing
  property is \<open>None\<close>. \<open>JSON.stringify\<close> and \<open>JSON.parse\<close> are built into the language,
  not code of the repository; they are modelled here on the texts the controller hands
  from one process to the next.
\<close>

datatype json =
    JNull
  | JBool bool
  | JNum int
  | JStr string
  | JArr "json list"
  | JObj "(string \<times> json) list"

subsection \<open>\<open>JSON.stringify\<close>\<close>

text \<open>
  \<open>JSON.stringify(value)\<close> without replacer and indentation, as the language defines it:
  no white space, properties in order, strings quoted with the escapes of
  \<open>QuoteJSONString\<close> (the two-character escapes for the quotation mark, the backslash and
  the control characters 08, 09, 0A, 0C, 0D; \<open>\u00xx\<close> in lower case for the other code
  units below 20; every other code unit as it is).
\<close>

definition hex_digit :: "nat \<Rightarrow> char" where
  "hex_digit n = ''0123456789abcdef'' ! (n mod 16)"

definition quote_char :: "char \<Rightarrow> string" where
  "quote_char ch =
     (if ch = CHR 0x22 then [CHR 0x5C, CHR 0x22]
      else if ch = CHR 0x5C then [CHR 0x5C, CHR 0x5C]
      else if ch = CHR 0x08 then [CHR 0x5C, CHR ''b'']
      else if ch = CHR 0x0C then [CHR 0x5C, CHR ''f'']
      else if ch = CHR 0x0A then [CHR 0x5C, CHR ''n'']
      else if ch = CHR 0x0D then [CHR 0x5C, CHR ''r'']
      else if ch = CHR 0x09 then [CHR 0x5C, CHR ''t'']
      else if (of_char ch :: nat) < 32
        then [CHR 0x5C, CHR ''u'', CHR ''0'', CHR ''0'',
              hex_digit (of_char ch div 16), hex_digit (of_char ch mod 16)]
      else [ch])"

definition quote :: "string \<Rightarrow> string" where
  "quote str = CHR 0x22 # concat (map quote_char str) @ [CHR 0x22]"

fun commas :: "string list \<Rightarrow> string" where
  "commas [] = []"
| "commas [x] = x"
| "commas (x # y # zs) = x @ CHR '','' # commas (y # zs)"

fun digits :: "nat \<Rightarrow> string" where
  "digits n = (if n < 10 then [hex_digit n] else digits (n div 10) @ [hex_digit (n mod 10)])"

fun JSON_stringify :: "json \<Rightarrow> string" where
  "JSON_stringify JNull = ''null''"
| "JSON_stringify (JBool b) = (if b then ''true'' else ''false'')"
| "JSON_stringify (JNum n) = (if n < 0 then CHR ''-'' # digits (nat (- n)) else digits (nat n))"
| "JSON_stringify (JStr str) = quote str"
| "JSON_stringify (JArr vs) = CHR ''['' # commas (map JSON_stringify vs) @ '']''"
| "JSON_stringify (JObj kvs) =
     CHR ''{'' # commas (map (\<lambda>(k, v). quote k @ CHR '':'' # JSON_stringify v) kvs) @ ''}''"


subsection \<open>\<open>JSON.parse\<close>\<close>

text \<open>
  \<open>JSON.parse(text)\<close>: white space between tokens is skipped, strings are unescaped,
  the whole text must be one value. The recursion runs on fuel, one unit per value,
  element, member or character of a string; \<open>read_json\<close> gives it more than twice the
  length of the text. \<open>None\<close> is a text that \<open>JSON.parse\<close> rejects; it
  also stands for what this model does not represent (a number with a fraction or an
  exponent, an escape \<open>\uXXXX\<close> above 00FF).
\<close>

definition is_ws :: "char \<Rightarrow> bool" where
  "is_ws ch = (ch = CHR 0x20 \<or> ch = CHR 0x09 \<or> ch = CHR 0x0A \<or> ch = CHR 0x0D)"

fun skip_ws :: "string \<Rightarrow> string" where
  "skip_ws [] = []"
| "skip_ws (ch # cs) = (if is_ws ch then skip_ws cs else ch # cs)"

definition unhex :: "char \<Rightarrow> nat option" where
  "unhex ch =
     (let n = (of_char ch :: nat) in
      if 48 \<le> n \<and> n \<le> 57 then Some (n - 48)
      else if 97 \<le> n \<and> n \<le> 102 then Some (n - 87)
      else if 65 \<le> n \<and> n \<le> 70 then Some (n - 55)
      else None)"

definition unescape :: "char \<Rightarrow> char option" where
  "unescape ch =
     (if ch = CHR 0x22 then Some (CHR 0x22)
      else if ch = CHR 0x5C then Some (CHR 0x5C)
      else if ch = CHR ''/'' then Some (CHR ''/'')
      else if ch = CHR ''b'' then Some (CHR 0x08)
      else if ch = CHR ''f'' then Some (CHR 0x0C)
      else if ch = CHR ''n'' then Some (CHR 0x0A)
      else if ch = CHR ''r'' then Some (CHR 0x0D)
      else if ch = CHR ''t'' then Some (CHR 0x09)
      else None)"

definition read_code_unit :: "string \<Rightarrow> nat option" where
  "read_code_unit hs =
     (case map unhex hs of
        [Some a, Some b, Some c, Some d] \<Rightarrow> Some (((a * 16 + b) * 16 + c) * 16 + d)
      | _ \<Rightarrow> None)"

fun read_string :: "nat \<Rightarrow> string \<Rightarrow> (string \<times> string) option" where
  "read_string 0 cs = None"
| "read_string (Suc n) [] = None"
| "read_string (Suc n) (ch # cs) =
     (if ch = CHR 0x22 then Some ([], cs)
      else if ch = CHR 0x5C then
        (case cs of
           [] \<Rightarrow> None
         | e # cs' \<Rightarrow>
             (if e = CHR ''u'' then
                (case read_code_unit (take 4 cs') of
                   None \<Rightarrow> None
                 | Some u \<Rightarrow>
                     (if u < 256
                      then map_option (\<lambda>(str, r). (char_of u # str, r)) (read_string n (drop 4 cs'))
                      else None))
              else
                (case unescape e of
                   None \<Rightarrow> None
                 | Some x \<Rightarrow> map_option (\<lambda>(str, r). (x # str, r)) (read_string n cs'))))
      else if (of_char ch :: nat) < 32 then None
      else map_option (\<lambda>(str, r). (ch # str, r)) (read_string n cs))"

definition is_digit :: "char \<Rightarrow> bool" where
  "is_digit ch = (48 \<le> (of_char ch :: nat) \<and> (of_char ch :: nat) \<le> 57)"

definition read_digits :: "string \<Rightarrow> (nat \<times> string) option" where
  "read_digits cs =
     (let ds = takeWhile is_digit cs; r = dropWhile is_digit cs in
      if ds = [] \<or> (length ds > 1 \<and> hd ds = CHR ''0'') then None
      else if r \<noteq> [] \<and> (hd r = CHR ''.'' \<or> hd r = CHR ''e'' \<or> hd r = CHR ''E'') then None
      else Some (foldl (\<lambda>acc d. acc * 10 + (of_char d - 48)) 0 ds, r))"

definition read_number :: "string \<Rightarrow> (json \<times> string) option" where
  "read_number cs =
     (case cs of
        [] \<Rightarrow> None
      | ch # cs' \<Rightarrow>
          (if ch = CHR ''-''
           then map_option (\<lambda>(n, r). (JNum (- int n), r)) (read_digits cs')
           else map_option (\<lambda>(n, r). (JNum (int n), r)) (read_digits cs)))"

definition read_word :: "string \<Rightarrow> json \<Rightarrow> string \<Rightarrow> (json \<times> string) option" where
  "read_word w v cs = (if take (length w) cs = w then Some (v, drop (length w) cs) else None)"

fun read_value :: "nat \<Rightarrow> string \<Rightarrow> (json \<times> string) option"
  and read_elements :: "nat \<Rightarrow> string \<Rightarrow> (json list \<times> string) option"
  and read_members :: "nat \<Rightarrow> string \<Rightarrow> ((string \<times> json) list \<times> string) option" where
  "read_value 0 cs = None"
| "read_value (Suc n) cs =
     (case skip_ws cs of
        [] \<Rightarrow> None
      | ch # r \<Rightarrow>
          (if ch = CHR 0x22 then map_option (\<lambda>(str, r'). (JStr str, r')) (read_string (length r) r)
           else if ch = CHR ''['' then
             (case skip_ws r of
                [] \<Rightarrow> None
              | ch' # r' \<Rightarrow>
                  (if ch' = CHR '']'' then Some (JArr [], r')
                   else map_option (\<lambda>(vs, r''). (JArr vs, r'')) (read_elements n r)))
           else if ch = CHR ''{'' then
             (case skip_ws r of
                [] \<Rightarrow> None
              | ch' # r' \<Rightarrow>
                  (if ch' = CHR ''}'' then Some (JObj [], r')
                   else map_option (\<lambda>(kvs, r''). (JObj kvs, r'')) (read_members n r)))
           else if ch = CHR ''t'' then read_word ''true'' (JBool True) (ch # r)
           else if ch = CHR ''f'' then read_word ''false'' (JBool False) (ch # r)
           else if ch = CHR ''n'' then read_word ''null'' JNull (ch # r)
           else read_number (ch # r)))"
| "read_elements 0 cs = None"
| "read_elements (Suc n) cs =
     (case read_value n cs of
        None \<Rightarrow> None
      | Some (v, r) \<Rightarrow>
          (case skip_ws r of
             [] \<Rightarrow> None
           | ch # r' \<Rightarrow>
               (if ch = CHR '','' then map_option (\<lambda>(vs, r''). (v # vs, r'')) (read_elements n r')
                else if ch = CHR '']'' then Some ([v], r')
                else None)))"
| "read_members 0 cs = None"
| "read_members (Suc n) cs =
     (case skip_ws cs of
        [] \<Rightarrow> None
      | q # r \<Rightarrow>
          (if q \<noteq> CHR 0x22 then None
           else
             (case read_string (length r) r of
                None \<Rightarrow> None
              | Some (k, r1) \<Rightarrow>
                  (case skip_ws r1 of
                     [] \<Rightarrow> None
                   | colon # r2 \<Rightarrow>
                       (if colon \<noteq> CHR '':'' then None
                        else
                          (case read_value n r2 of
                             None \<Rightarrow> None
                           | Some (v, r3) \<Rightarrow>
                               (case skip_ws r3 of
                                  [] \<Rightarrow> None
                                | ch # r4 \<Rightarrow>
                                    (if ch = CHR '','' then
                                       map_option (\<lambda>(kvs, r5). ((k, v) # kvs, r5)) (read_members n r4)
                                     else if ch = CHR ''}'' then Some ([(k, v)], r4)
                                     else None))))))))"

definition read_json :: "string \<Rightarrow> json option" where
  "read_json cs =
     (case read_value (Suc (2 * length cs)) cs of
        None \<Rightarrow> None
      | Some (v, r) \<Rightarrow> if skip_ws r = [] then Some v else None)"

datatype restart_error = SyntaxError | PropertyOfNull

definition JSON_parse :: "string \<Rightarrow> restart_error + json" where
  "JSON_parse cs = (case read_json cs of None \<Rightarrow> Inl SyntaxError | Some v \<Rightarrow> Inr v)"

subsection \<open>\<open>restartdata\<close>, \<open>restart\<close> and the next boot\<close>

text \<open>
  Truthiness of a value that may be undefined, and the property read \<open>data.name\<close>: it
  throws on \<open>null\<close>; a boolean, a number, a string or an array has none of the properties
  read here; of a key written twice in the text the last value counts.
\<close>

definition js_truthy :: "json option \<Rightarrow> bool" where
  "js_truthy v =
     (case v of
        None \<Rightarrow> False
      | Some JNull \<Rightarrow> False
      | Some (JBool b) \<Rightarrow> b
      | Some (JNum n) \<Rightarrow> n \<noteq> 0
      | Some (JStr str) \<Rightarrow> str \<noteq> []
      | Some (JArr _) \<Rightarrow> True
      | Some (JObj _) \<Rightarrow> True)"

definition property :: "json \<Rightarrow> string \<Rightarrow> restart_error + json option" where
  "property v name =
     (case v of
        JNull \<Rightarrow> Inl PropertyOfNull
      | JObj props \<Rightarrow> Inr (map_of (rev props) name)
      | _ \<Rightarrow> Inr None)"

text \<open>\<open>if (data.name) variable = data.name\<close>, as the new value of the variable.\<close>

definition overwrite_if_truthy :: "json option \<Rightarrow> json \<Rightarrow> json" where
  "overwrite_if_truthy new old =
     (case new of None \<Rightarrow> old | Some v \<Rightarrow> if js_truthy (Some v) then v else old)"

text \<open>
  The four top-level variables that keep data through a restart, with the values they are
  given when the process starts.
\<close>

record kept_data =
  oldconfig :: json
  logafterrestart :: json
  updateFailed :: json
  skippedaccounts :: json

definition kept_data_at_start :: kept_data where
  "kept_data_at_start =
     \<lparr>oldconfig = JObj [], logafterrestart = JArr [], updateFailed = JBool False,
      skippedaccounts = JArr []\<rparr>"

text \<open>
  \<open>restartdata(data)\<close>: each variable is overwritten when the parsed property is truthy.
  The first property read throws when the parsed value is \<open>null\<close>.
\<close>

definition restartdata :: "string \<Rightarrow> kept_data \<Rightarrow> restart_error + kept_data" where
  "restartdata cs g =
     (case JSON_parse cs of
        Inl err \<Rightarrow> Inl err
      | Inr data \<Rightarrow>
          (case (property data ''oldconfig'', property data ''logafterrestart'',
                 property data ''skippedaccounts'', property data ''updateFailed'') of
             (Inr oc, Inr lar, Inr sa, Inr uf) \<Rightarrow>
               Inr \<lparr>oldconfig = overwrite_if_truthy oc (oldconfig g),
                    logafterrestart = overwrite_if_truthy lar (logafterrestart g),
                    updateFailed = overwrite_if_truthy uf (updateFailed g),
                    skippedaccounts = overwrite_if_truthy sa (skippedaccounts g)\<rparr>
           | _ \<Rightarrow> Inl PropertyOfNull))"

text \<open>
  \<open>Controller.prototype.restart(data)\<close>: without data (undefined or the empty string) it
  stringifies the skipped accounts (\<open>info.skippedaccounts\<close>, an array of account names) and
  \<open>updateFailed: false\<close>; the message sent to the parent process carries the text.
\<close>

definition restart :: "string list \<Rightarrow> string option \<Rightarrow> string" where
  "restart info_skippedaccounts data =
     (case data of
        None \<Rightarrow>
          JSON_stringify (JObj [(''skippedaccounts'', JArr (map JStr info_skippedaccounts)),
                                (''updateFailed'', JBool False)])
      | Some cs \<Rightarrow>
          if cs = [] then
            JSON_stringify (JObj [(''skippedaccounts'', JArr (map JStr info_skippedaccounts)),
                                  (''updateFailed'', JBool False)])
          else cs)"

text \<open>
  The next boot: the parent process starts the controller with the text of the message as
  \<open>process.argv[4]\<close> (the parent is a separate program; the specification has it pass the
  payload back verbatim), and the controller ingests a text that is not empty once, into
  the variables as they are at start. The guard on the start time in \<open>process.argv[3]\<close>
  is taken to pass: when it does not, no controller is started at all.
\<close>

definition boot :: "string option \<Rightarrow> restart_error + kept_data" where
  "boot argv4 =
     (case argv4 of
        None \<Rightarrow> Inr kept_data_at_start
      | Some cs \<Rightarrow> if cs = [] then Inr kept_data_at_start else restartdata cs kept_data_at_start)"

text \<open>
  The RestartState of the specification and the object a caller of \<open>restart\<close> stringifies
  for it.
\<close>

record restart_state =
  skippedAccounts :: "string list"
  logBacklog :: "string list"
  updateFailedFlag :: bool

definition restart_payload :: "restart_state \<Rightarrow> json" where
  "restart_payload p =
     JObj [(''skippedaccounts'', JArr (map JStr (skippedAccounts p))),
           (''logafterrestart'', JArr (map JStr (logBacklog p))),
           (''updateFailed'', JBool (updateFailedFlag p))]"

section \<open>Properties: proxy health checks\<close>

text \<open>
  C1. For every proxy record of the array and every outcome of the probe, \<open>checkProxy\<close>
  returns normally; the record's \<open>isOnline\<close> is true exactly when the probe resolved with
  a status code from 200 to 299, its \<open>lastOnlineCheck\<close> is the current time, the returned
  value is the new \<open>isOnline\<close>, and nothing else in the array changes.
\<close>

theorem checkProxy_sets_status:
  assumes "idx < length ps"
  shows "\<exists>ps'. checkProxy ps idx res now
            = Inr (\<exists>c. res = Resolved (Some c) \<and> 200 \<le> c \<and> c \<le> 299, ps')
         \<and> isOnline (ps' ! idx) = (\<exists>c. res = Resolved (Some c) \<and> 200 \<le> c \<and> c \<le> 299)
         \<and> lastOnlineCheck (ps' ! idx) = now
         \<and> proxyIndex (ps' ! idx) = proxyIndex (ps ! idx)
         \<and> proxy (ps' ! idx) = proxy (ps ! idx)
         \<and> length ps' = length ps
         \<and> (\<forall>j. j \<noteq> idx \<longrightarrow> ps' ! j = ps ! j)"
  using assms
  by (cases res) (auto simp: checkProxy_def Let_def split: option.splits)

theorem checkProxy_sets_status_witness:
  "checkProxy [\<lparr>proxyIndex = 0, proxy = None, isOnline = True, lastOnlineCheck = 0\<rparr>] 0
       (Rejected None) 1700
     = Inr (False, [\<lparr>proxyIndex = 0, proxy = None, isOnline = False, lastOnlineCheck = 1700\<rparr>])"
  using checkProxy_sets_status
    [of 0 "[\<lparr>proxyIndex = 0, proxy = None, isOnline = True, lastOnlineCheck = 0\<rparr>]"
        "Rejected None" 1700]
  by (simp add: checkProxy_def)

subsection \<open>All checks together\<close>

lemma checkProxy_Inr:
  "idx < length ps \<Longrightarrow>
   checkProxy ps idx res now =
     Inr (probe_succeeded res, ps[idx := (ps ! idx)\<lparr>isOnline := probe_succeeded res, lastOnlineCheck := now\<rparr>])"
proof -
  have lt: "\<And>c::int. (c < 300) = (c \<le> 299)" by arith
  assume "idx < length ps"
  then show ?thesis
    by (cases res) (auto simp: checkProxy_def probe_succeeded_def Let_def lt split: option.splits)
qed

lemma map_of_pending:
  assumes "\<forall>(k, idx) \<in> set pend. idx = k \<and> k < n"
  shows "map_of pend k = (if k \<in> fst ` set pend then Some k else None)"
proof (cases "map_of pend k")
  case None
  then show ?thesis by (simp add: map_of_eq_None_iff)
next
  case (Some idx)
  then have "(k, idx) \<in> set pend" by (rule map_of_SomeD)
  with assms Some show ?thesis by force
qed

lemma start_inv:
  assumes "proxies_indexed ps"
  shows "check_inv (length ps) {} (checkAllProxies_start ps)"
proof -
  have idx: "\<And>k. k < length ps \<Longrightarrow> proxyIndex (ps ! k) = k"
    using assms unfolding proxies_indexed_def
    by (metis add_0 length_map nth_map nth_upt)
  have pend: "pending (checkAllProxies_start ps) = map (\<lambda>k. (k, k)) [0..<length ps]"
    unfolding checkAllProxies_start_def
    by (auto simp: filter_map o_def idx intro!: map_cong filter_True)
  have nf: "\<not> failed (checkAllProxies_start ps)"
    unfolding checkAllProxies_start_def
    by (auto simp: list_ex_iff in_set_conv_nth idx)
  show ?thesis
    unfolding check_inv_def pend
    using assms nf by (auto simp: checkAllProxies_start_def proxies_indexed_def image_iff)
qed


lemma check_invI:
  assumes "length (proxies st) = n" "map proxyIndex (proxies st) = [0..<n]" "\<not> failed st"
    "\<forall>(k, idx) \<in> set (pending st). idx = k \<and> k < n"
    "\<forall>i<n. i \<in> fst ` set (pending st) \<or>
         (\<exists>res now. (i, res, now) \<in> seen \<and> isOnline (proxies st ! i) = probe_succeeded res
            \<and> lastOnlineCheck (proxies st ! i) = now)"
    "\<forall>(k, res, now) \<in> seen. k \<notin> fst ` set (pending st)"
  shows "check_inv n seen st"
  unfolding check_inv_def using assms by blast

lemma settle_inv:
  assumes "check_inv n seen st"
  shows "check_inv n (insert ev seen) (settle ev st)"
proof -
  obtain k res now where ev: "ev = (k, res, now)" by (cases ev) auto
  have len: "length (proxies st) = n" and pi: "map proxyIndex (proxies st) = [0..<n]"
    and nf: "\<not> failed st"
    and pend: "\<forall>(k, idx) \<in> set (pending st). idx = k \<and> k < n"
    and upd: "\<forall>i<n. i \<in> fst ` set (pending st) \<or>
         (\<exists>res now. (i, res, now) \<in> seen \<and> isOnline (proxies st ! i) = probe_succeeded res
            \<and> lastOnlineCheck (proxies st ! i) = now)"
    and seen: "\<forall>(k, res, now) \<in> seen. k \<notin> fst ` set (pending st)"
    using assms unfolding check_inv_def by blast+
  show ?thesis
  proof (cases "k \<in> fst ` set (pending st)")
    case False
    then have same: "settle ev st = st"
      by (simp add: settle_def ev map_of_pending[OF pend])
    have u: "\<forall>i<n. i \<in> fst ` set (pending st) \<or>
         (\<exists>res now. (i, res, now) \<in> insert ev seen \<and> isOnline (proxies st ! i) = probe_succeeded res
            \<and> lastOnlineCheck (proxies st ! i) = now)"
      using upd by blast
    have s: "\<forall>(k, res, now) \<in> insert ev seen. k \<notin> fst ` set (pending st)"
      using seen False by (simp add: ev)
    show ?thesis
      unfolding same by (rule check_invI[OF len pi nf pend u s])
  next
    case True
    then have kn: "k < n" using pend by auto
    let ?p' = "(proxies st ! k)\<lparr>isOnline := probe_succeeded res, lastOnlineCheck := now\<rparr>"
    let ?ps' = "(proxies st)[k := ?p']"
    let ?pend' = "filter (\<lambda>(j, _). j \<noteq> k) (pending st)"
    let ?st' = "st\<lparr>proxies := ?ps', pending := ?pend'\<rparr>"
    have mo: "map_of (pending st) k = Some k"
      using True by (simp add: map_of_pending[OF pend])
    have st': "settle ev st = ?st'"
      using kn len by (simp add: settle_def ev mo checkProxy_Inr)
    have keys: "fst ` set ?pend' = fst ` set (pending st) - {k}"
      by force
    have c1: "length (proxies ?st') = n" using len by simp
    have "map proxyIndex ?ps' = (map proxyIndex (proxies st))[k := map proxyIndex (proxies st) ! k]"
      using kn len by (simp add: map_update)
    then have "map proxyIndex ?ps' = [0..<n]"
      by (simp only: list_update_id pi)
    then have c2: "map proxyIndex (proxies ?st') = [0..<n]" by simp
    have c3: "\<not> failed ?st'" using nf by simp
    have c4: "\<forall>(j, idx) \<in> set (pending ?st'). idx = j \<and> j < n" using pend by auto
    have c5: "\<forall>i<n. i \<in> fst ` set (pending ?st') \<or>
         (\<exists>res' now'. (i, res', now') \<in> insert ev seen
            \<and> isOnline (proxies ?st' ! i) = probe_succeeded res'
            \<and> lastOnlineCheck (proxies ?st' ! i) = now')"
    proof (intro allI impI)
      fix i assume i: "i < n"
      show "i \<in> fst ` set (pending ?st') \<or>
         (\<exists>res' now'. (i, res', now') \<in> insert ev seen
            \<and> isOnline (proxies ?st' ! i) = probe_succeeded res'
            \<and> lastOnlineCheck (proxies ?st' ! i) = now')"
      proof (cases "i = k")
        case True
        have "(i, res, now) \<in> insert ev seen" using True ev by simp
        moreover have "isOnline (proxies ?st' ! i) = probe_succeeded res"
          using True kn len by simp
        moreover have "lastOnlineCheck (proxies ?st' ! i) = now"
          using True kn len by simp
        ultimately show ?thesis by blast
      next
        case False
        have nth: "proxies ?st' ! i = proxies st ! i" using False by simp
        have pk: "(i \<in> fst ` set (pending ?st')) = (i \<in> fst ` set (pending st))"
          using False keys by simp
        from upd i have "i \<in> fst ` set (pending st) \<or>
            (\<exists>res now. (i, res, now) \<in> seen \<and> isOnline (proxies st ! i) = probe_succeeded res
              \<and> lastOnlineCheck (proxies st ! i) = now)" by blast
        then show ?thesis unfolding nth pk by blast
      qed
    qed
    have "k \<notin> fst ` set ?pend'" unfolding keys by simp
    moreover have "\<forall>(j, res, now) \<in> seen. j \<notin> fst ` set ?pend'"
      using seen unfolding keys by blast
    ultimately have "\<forall>(j, res, now) \<in> insert ev seen. j \<notin> fst ` set ?pend'"
      by (simp add: ev)
    moreover have "pending ?st' = ?pend'" by simp
    ultimately have c6: "\<forall>(j, res, now) \<in> insert ev seen. j \<notin> fst ` set (pending ?st')"
      by (simp only:)
    show ?thesis
      unfolding st' by (rule check_invI[OF c1 c2 c3 c4 c5 c6])
  qed
qed

lemma fold_settle_inv:
  "check_inv n seen st \<Longrightarrow> check_inv n (seen \<union> set evs) (fold settle evs st)"
proof (induction evs arbitrary: seen st)
  case Nil
  then show ?case by simp
next
  case (Cons ev evs)
  from settle_inv[OF Cons.prems, of ev]
  have "check_inv n (insert ev seen \<union> set evs) (fold settle evs (settle ev st))"
    by (rule Cons.IH)
  then show ?case by simp
qed

lemma checkAllProxies_inv:
  "proxies_indexed ps \<Longrightarrow> check_inv (length ps) (set evs) (checkAllProxies ps evs)"
  using fold_settle_inv[OF start_inv, of ps evs] by (simp add: checkAllProxies_def)

text \<open>
  C2. With the entries numbered by position, whatever the probes' outcomes and the order
  in which they settle: the promise of \<open>checkAllProxies\<close> never rejects; whenever it is
  fulfilled, every entry carries the \<open>isOnline\<close> and \<open>lastOnlineCheck\<close> written by the
  continuation of a probe that has settled before; and it is fulfilled once the probe of
  every entry has settled.
\<close>

theorem checkAllProxies_resolves:
  assumes "proxies_indexed ps"
  shows "checkAllProxies_promise (checkAllProxies ps evs) \<noteq> RejectedPromise
    \<and> (checkAllProxies_promise (checkAllProxies ps evs) = Fulfilled \<longrightarrow>
         (\<forall>i<length ps. \<exists>res now. (i, res, now) \<in> set evs
            \<and> isOnline (proxies (checkAllProxies ps evs) ! i)
                = (\<exists>c. res = Resolved (Some c) \<and> 200 \<le> c \<and> c \<le> 299)
            \<and> lastOnlineCheck (proxies (checkAllProxies ps evs) ! i) = now))
    \<and> ((\<forall>i<length ps. i \<in> fst ` set evs) \<longrightarrow>
         checkAllProxies_promise (checkAllProxies ps evs) = Fulfilled)"
proof -
  let ?st = "checkAllProxies ps evs"
  have inv: "check_inv (length ps) (set evs) ?st" by (rule checkAllProxies_inv[OF assms])
  have ok: "\<And>res. probe_succeeded res = (\<exists>c. res = Resolved (Some c) \<and> 200 \<le> c \<and> c \<le> 299)"
    by (auto simp: probe_succeeded_def split: probe.splits option.splits)
  have a: "checkAllProxies_promise ?st \<noteq> RejectedPromise"
    using inv by (simp add: check_inv_def checkAllProxies_promise_def)
  have b: "checkAllProxies_promise ?st = Fulfilled \<longrightarrow>
         (\<forall>i<length ps. \<exists>res now. (i, res, now) \<in> set evs
            \<and> isOnline (proxies ?st ! i) = (\<exists>c. res = Resolved (Some c) \<and> 200 \<le> c \<and> c \<le> 299)
            \<and> lastOnlineCheck (proxies ?st ! i) = now)"
  proof (intro impI allI)
    fix i assume f: "checkAllProxies_promise ?st = Fulfilled" and i: "i < length ps"
    from f have "pending ?st = []"
      by (auto simp: checkAllProxies_promise_def split: if_splits)
    with inv i show "\<exists>res now. (i, res, now) \<in> set evs
            \<and> isOnline (proxies ?st ! i) = (\<exists>c. res = Resolved (Some c) \<and> 200 \<le> c \<and> c \<le> 299)
            \<and> lastOnlineCheck (proxies ?st ! i) = now"
      unfolding check_inv_def ok[symmetric] by simp
  qed
  have c: "(\<forall>i<length ps. i \<in> fst ` set evs) \<longrightarrow> checkAllProxies_promise ?st = Fulfilled"
  proof
    assume all: "\<forall>i<length ps. i \<in> fst ` set evs"
    have "pending ?st = []"
    proof (rule ccontr)
      assume "pending ?st \<noteq> []"
      then obtain k idx where kin: "(k, idx) \<in> set (pending ?st)"
        by (cases "pending ?st") auto
      with inv have "k < length ps" unfolding check_inv_def by auto
      with all obtain res now where "(k, res, now) \<in> set evs" by force
      with inv have "k \<notin> fst ` set (pending ?st)" unfolding check_inv_def by auto
      with kin show False by force
    qed
    with a show "checkAllProxies_promise ?st = Fulfilled"
      by (simp add: checkAllProxies_promise_def split: if_splits)
  qed
  from a b c show ?thesis by blast
qed

theorem checkAllProxies_resolves_witness:
  "proxies_indexed
     [\<lparr>proxyIndex = 0, proxy = None, isOnline = True, lastOnlineCheck = 0\<rparr>,
      \<lparr>proxyIndex = 1, proxy = Some ''http://10.0.0.1:8080'', isOnline = True, lastOnlineCheck = 0\<rparr>]
   \<and> checkAllProxies_promise (checkAllProxies
     [\<lparr>proxyIndex = 0, proxy = None, isOnline = True, lastOnlineCheck = 0\<rparr>,
      \<lparr>proxyIndex = 1, proxy = Some ''http://10.0.0.1:8080'', isOnline = True, lastOnlineCheck = 0\<rparr>]
     [(1, Rejected None, 5), (0, Resolved (Some 200), 7)]) = Fulfilled
   \<and> checkAllProxies_promise (checkAllProxies
     [\<lparr>proxyIndex = 0, proxy = None, isOnline = True, lastOnlineCheck = 0\<rparr>,
      \<lparr>proxyIndex = 1, proxy = Some ''http://10.0.0.1:8080'', isOnline = True, lastOnlineCheck = 0\<rparr>]
     [(1, Rejected None, 5)]) = Pending
   \<and> proxies (checkAllProxies
     [\<lparr>proxyIndex = 0, proxy = None, isOnline = True, lastOnlineCheck = 0\<rparr>,
      \<lparr>proxyIndex = 1, proxy = Some ''http://10.0.0.1:8080'', isOnline = True, lastOnlineCheck = 0\<rparr>]
     [(1, Rejected None, 5), (0, Resolved (Some 200), 7)])
     = [\<lparr>proxyIndex = 0, proxy = None, isOnline = True, lastOnlineCheck = 7\<rparr>,
        \<lparr>proxyIndex = 1, proxy = Some ''http://10.0.0.1:8080'', isOnline = False, lastOnlineCheck = 5\<rparr>]"
proof -
  let ?ps = "[\<lparr>proxyIndex = 0, proxy = None, isOnline = True, lastOnlineCheck = 0\<rparr>,
      \<lparr>proxyIndex = 1, proxy = Some ''http://10.0.0.1:8080'', isOnline = True, lastOnlineCheck = 0\<rparr>]"
  let ?evs = "[(1::nat, Rejected None, 5::int), (0, Resolved (Some 200), 7)]"
  have wf: "proxies_indexed ?ps" by code_simp
  have cover: "\<forall>i<length ?ps. i \<in> fst ` set ?evs" by (simp add: less_Suc_eq)
  from checkAllProxies_resolves[OF wf, of ?evs] cover
  have "checkAllProxies_promise (checkAllProxies ?ps ?evs) = Fulfilled" by blast
  moreover have "checkAllProxies_promise (checkAllProxies ?ps [(1, Rejected None, 5)]) = Pending"
    by code_simp
  moreover have "proxies (checkAllProxies ?ps ?evs)
     = [\<lparr>proxyIndex = 0, proxy = None, isOnline = True, lastOnlineCheck = 7\<rparr>,
        \<lparr>proxyIndex = 1, proxy = Some ''http://10.0.0.1:8080'', isOnline = False, lastOnlineCheck = 5\<rparr>]"
    by code_simp
  ultimately show ?thesis using wf by simp
qed

section \<open>Properties: counting limited accounts\<close>

lemma check_loop_defined:
  "check_loop (map Some accs) cb l f =
     (if accs = [] then Completed []
      else if l + length (filter limited_is_true accs) > 0 then
        (case cb of
           NoCallback \<Rightarrow> Threw (l + length (filter limited_is_true accs)) (f + length (filter uncheckable accs)) []
         | Callback g \<Rightarrow>
            (if g (l + length (filter limited_is_true accs)) (f + length (filter uncheckable accs))
             then Threw (l + length (filter limited_is_true accs)) (f + length (filter uncheckable accs))
                    [(l + length (filter limited_is_true accs), f + length (filter uncheckable accs))]
             else Completed [(l + length (filter limited_is_true accs), f + length (filter uncheckable accs))]))
      else Completed [])"
proof (induction accs arbitrary: l f)
  case Nil
  then show ?case by simp
next
  case (Cons a accs)
  show ?case
  proof (cases "accs = []")
    case True
    then show ?thesis
      by (auto simp: limited_is_true_def uncheckable_def Let_def split: option.splits callback.splits)
  next
    case False
    then show ?thesis
      by (simp add: Cons.IH limited_is_true_def uncheckable_def Let_def split: option.splits callback.splits)
  qed
qed

lemma check_loop_undefined:
  "check_loop (map Some accs @ None # rest) cb l f =
     Threw (l + length (filter limited_is_true accs)) (f + length (filter uncheckable accs)) []"
  by (induction accs arbitrary: l f)
     (auto simp: limited_is_true_def uncheckable_def Let_def split: option.splits callback.splits)

lemma botobject_cases:
  "(\<exists>accs. botobject = map Some accs) \<or> (\<exists>accs rest. botobject = map Some accs @ None # rest)"
proof (induction botobject)
  case Nil
  then show ?case by simp
next
  case (Cons e es)
  show ?case
  proof (cases e)
    case None
    then have "e # es = map Some [] @ None # es" by simp
    then have "\<exists>accs rest. e # es = map Some accs @ None # rest" by blast
    then show ?thesis ..
  next
    case (Some a)
    from Cons.IH show ?thesis
    proof
      assume "\<exists>accs. es = map Some accs"
      then obtain accs where "es = map Some accs" ..
      then have "e # es = map Some (a # accs)" using Some by simp
      then have "\<exists>accs. e # es = map Some accs" by (rule exI)
      then show ?thesis ..
    next
      assume "\<exists>accs rest. es = map Some accs @ None # rest"
      then obtain accs rest where "es = map Some accs @ None # rest" by blast
      then have "e # es = map Some (a # accs) @ None # rest" using Some by simp
      then have "\<exists>accs rest. e # es = map Some accs @ None # rest" by blast
      then show ?thesis ..
    qed
  qed
qed


lemma some_limited_iff:
  "(0 < length (filter limited_is_true accs)) = (\<exists>acc\<in>set accs. limited_is_true acc)"
  by (simp add: filter_empty_conv)

text \<open>
  C9, as stated, fails: an entry of \<open>botobject\<close> that is \<open>undefined\<close> makes the loop throw
  on reading \<open>.limitations\<close> (the test \<open>!= undefined\<close> on the entry comes one line later),
  and the \<open>catch\<close> block invokes the callback although no account is limited.
\<close>

theorem check_callback_on_exception_counterexample:
  "\<not> limited_is_true \<lparr>limitations = Some \<lparr>limited = Some False\<rparr>, myFriends = []\<rparr>
   \<and> check [Some \<lparr>limitations = Some \<lparr>limited = Some False\<rparr>, myFriends = []\<rparr>, None]
         (Callback (\<lambda>limitedaccs failedtocheck. False))
       = \<lparr>invocations = [(0, 0)], errors_logged = 1, escaped = False\<rparr>"
  by (simp add: check_def limited_is_true_def)

text \<open>
  C9, amended. For every \<open>botobject\<close> whose entries are all defined and none of which has
  \<open>limitations.limited == true\<close>, \<open>check\<close> completes without invoking the callback, without
  logging and without throwing. For every \<open>botobject\<close>, the callback is invoked only when
  an exception was caught or some account is limited; and in a run that caught no
  exception it is invoked at most once, by the final iteration, with the number of limited
  accounts and the number of accounts that could not be checked.
\<close>

theorem check_invokes_callback:
  "(botobject = map Some accs \<and> (\<forall>acc\<in>set accs. \<not> limited_is_true acc) \<longrightarrow>
      check botobject cb = \<lparr>invocations = [], errors_logged = 0, escaped = False\<rparr>)
   \<and> (invocations (check botobject cb) \<noteq> [] \<longrightarrow>
        errors_logged (check botobject cb) = 1
        \<or> (\<exists>acc. Some acc \<in> set botobject \<and> limited_is_true acc))
   \<and> (errors_logged (check botobject cb) = 0 \<and> botobject = map Some accs \<longrightarrow>
        invocations (check botobject cb) =
          (if \<exists>acc\<in>set accs. limited_is_true acc
           then [(length (filter limited_is_true accs), length (filter uncheckable accs))]
           else []))"
proof (intro conjI impI)
  assume "botobject = map Some accs \<and> (\<forall>acc\<in>set accs. \<not> limited_is_true acc)"
  then show "check botobject cb = \<lparr>invocations = [], errors_logged = 0, escaped = False\<rparr>"
    by (simp add: check_def check_loop_defined some_limited_iff)
next
  assume inv: "invocations (check botobject cb) \<noteq> []"
  from botobject_cases[of botobject]
  show "errors_logged (check botobject cb) = 1
        \<or> (\<exists>acc. Some acc \<in> set botobject \<and> limited_is_true acc)"
  proof
    assume "\<exists>accs. botobject = map Some accs"
    then obtain as where b: "botobject = map Some as" ..
    have "\<exists>acc\<in>set as. limited_is_true acc"
    proof (rule ccontr)
      assume "\<not> (\<exists>acc\<in>set as. limited_is_true acc)"
      then have "invocations (check botobject cb) = []"
        by (simp add: b check_def check_loop_defined some_limited_iff)
      with inv show False by simp
    qed
    then show ?thesis using b by auto
  next
    assume "\<exists>accs rest. botobject = map Some accs @ None # rest"
    then obtain as rest where "botobject = map Some as @ None # rest" by blast
    then have "errors_logged (check botobject cb) = 1"
      by (simp add: check_def check_loop_undefined split: callback.splits)
    then show ?thesis ..
  qed
next
  assume "errors_logged (check botobject cb) = 0 \<and> botobject = map Some accs"
  then show "invocations (check botobject cb) =
          (if \<exists>acc\<in>set accs. limited_is_true acc
           then [(length (filter limited_is_true accs), length (filter uncheckable accs))]
           else [])"
    by (auto simp: check_def check_loop_defined filter_empty_conv split: callback.splits if_splits)
qed

theorem check_invokes_callback_witness:
  "check [Some \<lparr>limitations = Some \<lparr>limited = Some False\<rparr>, myFriends = []\<rparr>,
          Some \<lparr>limitations = None, myFriends = []\<rparr>]
         (Callback (\<lambda>limitedaccs failedtocheck. False))
     = \<lparr>invocations = [], errors_logged = 0, escaped = False\<rparr>
   \<and> invocations (check [Some \<lparr>limitations = Some \<lparr>limited = Some True\<rparr>, myFriends = []\<rparr>,
          Some \<lparr>limitations = None, myFriends = []\<rparr>]
         (Callback (\<lambda>limitedaccs failedtocheck. False))) = [(1, 1)]"
proof -
  let ?u = "\<lparr>limitations = Some \<lparr>limited = Some False\<rparr>, myFriends = []\<rparr>"
  let ?l = "\<lparr>limitations = Some \<lparr>limited = Some True\<rparr>, myFriends = []\<rparr>"
  let ?n = "\<lparr>limitations = None, myFriends = []\<rparr>"
  let ?cb = "Callback (\<lambda>limitedaccs failedtocheck. False)"
  have u: "\<forall>acc\<in>set [?u, ?n]. \<not> limited_is_true acc"
    by (simp add: limited_is_true_def)
  have a: "check [Some ?u, Some ?n] ?cb = \<lparr>invocations = [], errors_logged = 0, escaped = False\<rparr>"
    using check_invokes_callback[of "[Some ?u, Some ?n]" "[?u, ?n]" ?cb] u by simp
  have e: "errors_logged (check [Some ?l, Some ?n] ?cb) = 0"
    by (simp add: check_def limited_is_true_def)
  have "invocations (check [Some ?l, Some ?n] ?cb) = [(1, 1)]"
    using check_invokes_callback[of "[Some ?l, Some ?n]" "[?l, ?n]" ?cb] e
    by (simp add: limited_is_true_def uncheckable_def)
  with a show ?thesis by simp
qed

section \<open>Properties: friend commands\<close>

subsection \<open>Reading the effects of a command\<close>

lemma timers_simps [simp]:
  "timers [] = []"
  "timers (SetTimeout d t # effs) = (d, t) # timers effs"
  "timers (Respond r # effs) = timers effs"
  "timers (Log l m # effs) = timers effs"
  "timers (Remote rc # effs) = timers effs"
  "timers (Uncaught x # effs) = timers effs"
  "timers (effs @ effs') = timers effs @ timers effs'"
  by (simp_all add: timers_def)

lemma remote_calls_simps [simp]:
  "remote_calls [] = []"
  "remote_calls (SetTimeout d t # effs) = remote_calls effs"
  "remote_calls (Respond r # effs) = remote_calls effs"
  "remote_calls (Log l m # effs) = remote_calls effs"
  "remote_calls (Remote rc # effs) = rc # remote_calls effs"
  "remote_calls (Uncaught x # effs) = remote_calls effs"
  "remote_calls (effs @ effs') = remote_calls effs @ remote_calls effs'"
  by (simp_all add: remote_calls_def)

lemma logged_simps [simp]:
  "logged lvl [] = []"
  "logged lvl (SetTimeout d t # effs) = logged lvl effs"
  "logged lvl (Respond r # effs) = logged lvl effs"
  "logged lvl (Log l m # effs) = (if l = lvl then [m] else []) @ logged lvl effs"
  "logged lvl (Remote rc # effs) = logged lvl effs"
  "logged lvl (Uncaught x # effs) = logged lvl effs"
  "logged lvl (effs @ effs') = logged lvl effs @ logged lvl effs'"
  by (simp_all add: logged_def)

lemma timers_concat: "timers (concat xss) = concat (map timers xss)"
  by (induction xss) simp_all

lemma remote_calls_concat: "remote_calls (concat xss) = concat (map remote_calls xss)"
  by (induction xss) simp_all

lemma logged_concat: "logged lvl (concat xss) = concat (map (logged lvl) xss)"
  by (induction xss) simp_all

lemma timers_forEach:
  "timers (forEach xs body) = concat (map (\<lambda>i. timers (body (xs ! i) i)) [0..<length xs])"
  by (simp add: forEach_def timers_concat o_def)

lemma concat_map_if_singleton:
  "concat (map (\<lambda>i. if P i then [f i] else []) xs) = map f (filter P xs)"
  by (induction xs) simp_all


lemma addFriend_run_accepted:
  assumes "readyAfter c \<noteq> 0" "truthy (arg0 args)" "resolve ev (arg0 args) = Inr res"
    "\<not> limited_is_true (user (main c))"
  shows "addFriend_run ev c args =
     [Respond (AddFriendCmdSuccess res (5 * length (bots c))),
      Log Info (AddingFriend res (5 * length (bots c)))]
     @ forEach (bots c) (\<lambda>e i.
         if limited_is_true (user e) then [Log Error (CantAddLimited res (index e))]
         else if notFriendNorBlocked e res
           then [SetTimeout (5000 * i) (AddFriendTask e res)]
           else [Log Warn (AlreadyFriendOrBlocked (index e) res)])"
  using assms by (simp add: addFriend_run_def)

lemma addFriend_timers:
  assumes "readyAfter c \<noteq> 0" "truthy (arg0 args)" "resolve ev (arg0 args) = Inr res"
    "\<not> limited_is_true (user (main c))"
  shows "timers (addFriend_run ev c args) =
     map (\<lambda>i. (5000 * i, AddFriendTask (bots c ! i) res))
       (filter (\<lambda>i. \<not> limited_is_true (user (bots c ! i)) \<and> notFriendNorBlocked (bots c ! i) res)
          [0..<length (bots c)])"
proof -
  have body: "\<And>i. timers (if limited_is_true (user (bots c ! i))
                  then [Log Error (CantAddLimited res (index (bots c ! i)))]
                  else if notFriendNorBlocked (bots c ! i) res
                    then [SetTimeout (5000 * i) (AddFriendTask (bots c ! i) res)]
                    else [Log Warn (AlreadyFriendOrBlocked (index (bots c ! i)) res)])
        = (if \<not> limited_is_true (user (bots c ! i)) \<and> notFriendNorBlocked (bots c ! i) res
           then [(5000 * i, AddFriendTask (bots c ! i) res)] else [])"
    by simp
  show ?thesis
    unfolding addFriend_run_accepted[OF assms]
    by (simp only: timers_simps timers_forEach body concat_map_if_singleton append_Nil)
qed

lemma unfriend_self_timers:
  assumes "readyAfter c \<noteq> 0" "\<not> truthy (arg0 args)" "fromSteamChat ri"
    "userID ri = Some requester" "requester \<noteq> []"
  shows "timers (unfriend_run ev c args ri) =
     map (\<lambda>i. (1000 * i, UnfriendTask (bots c ! i) requester)) [0..<length (bots c)]"
  using assms by (simp add: unfriend_run_def timers_forEach)

lemma unfriend_id_timers:
  assumes "requesterIsOwner c ri" "resolve ev (arg0 args) = Inr res" "res \<notin> set (ownerid c)"
  shows "timers (unfriend_id ev c args ri) =
     map (\<lambda>i. (1000 * i, UnfriendTask (bots c ! i) res)) [0..<length (bots c)]"
  using assms by (simp add: unfriend_id_def timers_forEach)

lemma unfriend_run_with_id:
  assumes "readyAfter c \<noteq> 0" "truthy (arg0 args)"
  shows "unfriend_run ev c args ri = unfriend_id ev c args ri"
  using assms by (simp add: unfriend_run_def split: option.splits)

lemma unfriendall_start_timers:
  assumes "\<not> (k < length cells \<and> cells ! k)"
  shows "timers (fire ev c cells (UnfriendAllStart k)) =
     concat (map (\<lambda>i. map (\<lambda>friend. (1000 * i, UnfriendAllItem i friend))
                        (map fst (myFriends (user (bots c ! i)))))
               [0..<length (bots c)])"
proof -
  have m: "\<And>i fs. timers (map (\<lambda>friend. SetTimeout (1000 * i) (UnfriendAllItem i friend)) fs)
      = map (\<lambda>friend. (1000 * i, UnfriendAllItem i friend)) fs"
    by (induct_tac fs) simp_all
  have "fire ev c cells (UnfriendAllStart k) =
      [Respond UnfriendAllCmdStart, Log Info StartingToUnfriend]
      @ forEach (bots c) (\<lambda>e i.
          map (\<lambda>friend. SetTimeout (1000 * i) (UnfriendAllItem i friend))
            (map fst (myFriends (user e))))"
    using assms by (auto simp: fire_def)
  then show ?thesis
    by (simp only: timers_simps timers_forEach m append_Nil)
qed

subsection \<open>Running the timers\<close>

lemma sorted_scaled_upt: "sorted (map (\<lambda>i. k * i) [m..<n])"
  by (induction n) (auto simp: sorted_append)

lemma sorted_constant: "sorted (map (\<lambda>x. a) ys)"
  by (induction ys) simp_all

lemma sorted_scaled_groups:
  "sorted (concat (map (\<lambda>i. map (\<lambda>x. k * i) (xs i)) [m..<n]))"
  by (induction n) (auto simp: sorted_append sorted_constant)

lemma concat_map_over_concat:
  "concat (map f (concat xss)) = concat (map (\<lambda>xs. concat (map f xs)) xss)"
  by (induction xss) simp_all

lemma fire_all_sorted:
  assumes "sorted (map fst ts)"
  shows "fire_all ev c cells ts = concat (map (\<lambda>(d, t). fire ev c cells t) ts)"
  by (simp add: fire_all_def sort_key_id_if_sorted[OF assms])

lemma fire_all_batch:
  "fire_all ev c cells (map (\<lambda>i. (k * i, g i)) (filter P [0..<n]))
     = concat (map (\<lambda>i. fire ev c cells (g i)) (filter P [0..<n]))"
proof -
  have "sorted (map (\<lambda>i. k * i) (filter P [0..<n]))"
    by (rule sorted_filter) (rule sorted_scaled_upt)
  then have "sorted (map fst (map (\<lambda>i. (k * i, g i)) (filter P [0..<n])))"
    by (simp add: o_def)
  then show ?thesis
    by (simp add: fire_all_sorted o_def)
qed

lemma fire_all_groups:
  "fire_all ev c cells (concat (map (\<lambda>i. map (\<lambda>x. (k * i, g i x)) (xs i)) [0..<n]))
     = concat (map (\<lambda>i. concat (map (\<lambda>x. fire ev c cells (g i x)) (xs i))) [0..<n])"
proof -
  have "map fst (concat (map (\<lambda>i. map (\<lambda>x. (k * i, g i x)) (xs i)) [0..<n]))
      = concat (map (\<lambda>i. map (\<lambda>x. k * i) (xs i)) [0..<n])"
    by (simp add: map_concat o_def)
  then have "sorted (map fst (concat (map (\<lambda>i. map (\<lambda>x. (k * i, g i x)) (xs i)) [0..<n])))"
    by (simp only: sorted_scaled_groups)
  then show ?thesis
    by (simp add: fire_all_sorted concat_map_over_concat o_def)
qed

lemma fire_all_Nil [simp]: "fire_all ev c cells [] = []"
  by (simp add: fire_all_def)

lemma timers_fire_leaf:
  "timers (fire ev c cells (AddFriendTask e res)) = []"
  "timers (fire ev c cells (UnfriendTask e res)) = []"
  "timers (fire ev c cells (UnfriendAllItem i friend)) = []"
  by (simp_all add: fire_def split: option.splits)

lemma timers_concat_Nil:
  "(\<And>x. x \<in> set xs \<Longrightarrow> timers (f x) = []) \<Longrightarrow> timers (concat (map f xs)) = []"
  by (induction xs) simp_all

lemma run_timers_addFriend:
  assumes "readyAfter c \<noteq> 0" "truthy (arg0 args)" "resolve ev (arg0 args) = Inr res"
    "\<not> limited_is_true (user (main c))"
  shows "run_timers ev' c' cells (addFriend_run ev c args) =
     concat (map (\<lambda>i. fire ev' c' cells (AddFriendTask (bots c ! i) res))
       (filter (\<lambda>i. \<not> limited_is_true (user (bots c ! i)) \<and> notFriendNorBlocked (bots c ! i) res)
          [0..<length (bots c)]))"
proof -
  let ?first = "concat (map (\<lambda>i. fire ev' c' cells (AddFriendTask (bots c ! i) res))
       (filter (\<lambda>i. \<not> limited_is_true (user (bots c ! i)) \<and> notFriendNorBlocked (bots c ! i) res)
          [0..<length (bots c)]))"
  have first: "fire_all ev' c' cells (timers (addFriend_run ev c args)) = ?first"
    unfolding addFriend_timers[OF assms] by (rule fire_all_batch)
  have "timers ?first = []"
    by (rule timers_concat_Nil) (rule timers_fire_leaf)
  then show ?thesis
    by (simp add: run_timers_def first Let_def)
qed

lemma run_timers_unfriendall:
  assumes "\<not> (k < length cells \<and> cells ! k)"
  shows "run_timers ev c cells [SetTimeout d (UnfriendAllStart k)] =
     fire ev c cells (UnfriendAllStart k)
     @ concat (map (\<lambda>i. concat (map (\<lambda>friend. fire ev c cells (UnfriendAllItem i friend))
                                    (map fst (myFriends (user (bots c ! i))))))
                [0..<length (bots c)])"
proof -
  have first: "fire_all ev c cells (timers [SetTimeout d (UnfriendAllStart k)])
      = fire ev c cells (UnfriendAllStart k)"
    by (simp add: fire_all_def)
  show ?thesis
    by (simp only: run_timers_def Let_def first unfriendall_start_timers[OF assms] fire_all_groups)
qed

lemma remote_calls_concat_map:
  "remote_calls (concat (map f xs)) = concat (map (\<lambda>x. remote_calls (f x)) xs)"
  by (simp add: remote_calls_concat o_def)

lemma logged_concat_map:
  "logged lvl (concat (map f xs)) = concat (map (\<lambda>x. logged lvl (f x)) xs)"
  by (simp add: logged_concat o_def)

lemma remote_calls_AddFriendTask:
  "remote_calls (fire ev c cells (AddFriendTask e res)) = [AddFriend (index e) res]"
  by (simp add: fire_def split: option.splits)

lemma concat_map_singleton: "concat (map (\<lambda>x. [f x]) xs) = map f xs"
  by (induction xs) simp_all

lemma remote_calls_addFriend:
  assumes "readyAfter c \<noteq> 0" "truthy (arg0 args)" "resolve ev (arg0 args) = Inr res"
    "\<not> limited_is_true (user (main c))"
  shows "remote_calls (run_timers ev' c' cells (addFriend_run ev c args)) =
     map (\<lambda>i. AddFriend (index (bots c ! i)) res)
       (filter (\<lambda>i. \<not> limited_is_true (user (bots c ! i)) \<and> notFriendNorBlocked (bots c ! i) res)
          [0..<length (bots c)])"
  by (simp only: run_timers_addFriend[OF assms] remote_calls_concat_map
        remote_calls_AddFriendTask concat_map_singleton)

lemma remote_calls_UnfriendAllItem:
  "remote_calls (fire ev c cells (UnfriendAllItem i friend)) =
     (if friend \<notin> set (ownerid c) \<and> i < length (bots c)
      then [RemoveFriend (index (bots c ! i)) friend] else [])"
  by (simp add: fire_def)

lemma remote_calls_unfriendall:
  assumes "\<not> (k < length cells \<and> cells ! k)"
  shows "remote_calls (run_timers ev c cells [SetTimeout d (UnfriendAllStart k)]) =
     concat (map (\<lambda>i. map (\<lambda>friend. RemoveFriend (index (bots c ! i)) friend)
                        (filter (\<lambda>friend. friend \<notin> set (ownerid c))
                           (map fst (myFriends (user (bots c ! i))))))
               [0..<length (bots c)])"
proof -
  have start: "remote_calls (fire ev c cells (UnfriendAllStart k)) = []"
    using assms
    by (auto simp: fire_def forEach_def remote_calls_concat_map remote_calls_def)
  have item: "\<And>i fs. i < length (bots c) \<Longrightarrow>
      concat (map (\<lambda>friend. remote_calls (fire ev c cells (UnfriendAllItem i friend))) fs)
      = map (\<lambda>friend. RemoveFriend (index (bots c ! i)) friend)
          (filter (\<lambda>friend. friend \<notin> set (ownerid c)) fs)"
    by (induct_tac fs) (simp_all add: remote_calls_UnfriendAllItem)
  have items: "map (\<lambda>i. concat (map (\<lambda>friend. remote_calls (fire ev c cells (UnfriendAllItem i friend)))
                                    (map fst (myFriends (user (bots c ! i))))))
                [0..<length (bots c)]
      = map (\<lambda>i. map (\<lambda>friend. RemoveFriend (index (bots c ! i)) friend)
                        (filter (\<lambda>friend. friend \<notin> set (ownerid c))
                           (map fst (myFriends (user (bots c ! i))))))
               [0..<length (bots c)]"
    by (rule map_cong) (simp_all only: item set_upt atLeastLessThan_iff)
  show ?thesis
    unfolding run_timers_unfriendall[OF assms]
    by (simp only: remote_calls_simps start remote_calls_concat_map append_Nil items)
qed

lemma timers_of_fire:
  assumes "(d, t) \<in> set (timers (fire ev c cells t0))"
  shows "\<exists>i friend. t = UnfriendAllItem i friend"
proof (cases t0)
  case (AddFriendTask e res)
  with assms show ?thesis by (simp add: timers_fire_leaf)
next
  case (UnfriendTask e res)
  with assms show ?thesis by (simp add: timers_fire_leaf)
next
  case (UnfriendAllStart k)
  show ?thesis
  proof (cases "k < length cells \<and> cells ! k")
    case True
    with assms UnfriendAllStart show ?thesis by (simp add: fire_def)
  next
    case False
    from assms show ?thesis
      unfolding UnfriendAllStart unfriendall_start_timers[OF False] by auto
  qed
next
  case (UnfriendAllItem i friend)
  with assms show ?thesis by (simp add: timers_fire_leaf)
qed

lemma timers_of_fire_all:
  assumes "(d, t) \<in> set (timers (fire_all ev c cells ts))"
  shows "\<exists>i friend. t = UnfriendAllItem i friend"
proof -
  from assms obtain d0 t0 where "(d, t) \<in> set (timers (fire ev c cells t0))"
    by (auto simp: fire_all_def timers_concat)
  then show ?thesis by (rule timers_of_fire)
qed

text \<open>Two rounds are enough: after them no timer is left.\<close>

lemma run_timers_complete:
  "timers (fire_all ev c cells (timers (fire_all ev' c' cells' ts))) = []"
proof -
  have "timers (concat (map (\<lambda>(d, t). fire ev c cells t)
          (sort_key fst (timers (fire_all ev' c' cells' ts))))) = []"
  proof (rule timers_concat_Nil)
    fix x assume "x \<in> set (sort_key fst (timers (fire_all ev' c' cells' ts)))"
    then have x: "x \<in> set (timers (fire_all ev' c' cells' ts))" by simp
    obtain d t where dt: "x = (d, t)" by (cases x)
    with x timers_of_fire_all[of d t ev' c' cells' ts]
    obtain i friend where "t = UnfriendAllItem i friend" by blast
    with dt show "timers (case x of (d, t) \<Rightarrow> fire ev c cells t) = []"
      by (simp add: timers_fire_leaf)
  qed
  then show ?thesis by (simp add: fire_all_def)
qed

subsection \<open>The small fleet, evaluated\<close>

lemma fleet_fields:
  "readyAfter fleet \<noteq> 0" "main fleet = bot0" "ownerid fleet = [''76561198000000099'']"
  "bots fleet = [bot0, bot1, bot2, bot3]"
  "[0..<length (bots fleet)] = [0, 1, 2, 3]"
  "bots fleet ! 0 = bot0" "bots fleet ! Suc 0 = bot1" "bots fleet ! 2 = bot2" "bots fleet ! 3 = bot3"
  by (simp_all add: fleet_def upt_rec)

lemma fleet_bots:
  "index bot0 = 0" "index bot1 = 1" "index bot2 = 2" "index bot3 = 3"
  "\<not> limited_is_true (user bot0)" "limited_is_true (user bot1)"
  "\<not> limited_is_true (user bot2)" "\<not> limited_is_true (user bot3)"
  "myFriends (user bot0) = [(''76561198000000001'', 3), (''76561198000000099'', 3)]"
  "myFriends (user bot1) = []" "myFriends (user bot2) = [(''76561198000000002'', 3)]"
  "myFriends (user bot3) = []"
  by (simp_all add: limited_is_true_def bot0_def bot1_def bot2_def bot3_def)

lemma fleet_request:
  "resolve fleet_env (Some a) = Inr a"
  "addFriendError fleet_env n res = (if n = 3 then Some ''Timeout'' else None)"
  "remaining fleet_env n = (if n = 0 then Some 15 else Some 120)"
  "requesterIsOwner fleet owner_in_chat" "fromSteamChat owner_in_chat"
  "userID owner_in_chat = Some ''76561198000000099''"
  "truthy (Some a) = (a \<noteq> [])" "\<not> truthy None" "arg0 [] = None" "arg0 [a] = Some a"
  by (simp_all add: fleet_env_def requesterIsOwner_def requestOwners_def owner_in_chat_def
        fleet_def truthy_def arg0_def)

subsection \<open>Failures of single requests\<close>

lemma run_timers_cong:
  "timers effs = timers effs' \<Longrightarrow> run_timers ev c cells effs = run_timers ev c cells effs'"
  by (simp add: run_timers_def)

lemma unfriendall_run_timers:
  assumes "readyAfter c \<noteq> 0" "arg0 args \<noteq> Some ''abort''"
  shows "timers (snd (unfriendall_run c args cells0))
           = timers [SetTimeout 30000 (UnfriendAllStart (length cells0))]"
  using assms by (simp add: unfriendall_run_def)

lemma logged_Error_AddFriendTask:
  "logged Error (fire ev c cells (AddFriendTask e res)) =
     (case addFriendError ev (index e) res of
        Some err \<Rightarrow> [ErrorAdding res (index e) err]
      | None \<Rightarrow> [])"
  by (simp add: fire_def split: option.splits)

lemma logged_Warn_addFriend:
  assumes "readyAfter c \<noteq> 0" "truthy (arg0 args)" "resolve ev (arg0 args) = Inr res"
    "\<not> limited_is_true (user (main c))"
  shows "logged Warn (addFriend_run ev c args) =
     map (\<lambda>i. AlreadyFriendOrBlocked (index (bots c ! i)) res)
       (filter (\<lambda>i. \<not> limited_is_true (user (bots c ! i)) \<and> \<not> notFriendNorBlocked (bots c ! i) res)
          [0..<length (bots c)])"
proof -
  have body: "\<And>i. logged Warn (if limited_is_true (user (bots c ! i))
                  then [Log Error (CantAddLimited res (index (bots c ! i)))]
                  else if notFriendNorBlocked (bots c ! i) res
                    then [SetTimeout (5000 * i) (AddFriendTask (bots c ! i) res)]
                    else [Log Warn (AlreadyFriendOrBlocked (index (bots c ! i)) res)])
        = (if \<not> limited_is_true (user (bots c ! i)) \<and> \<not> notFriendNorBlocked (bots c ! i) res
           then [AlreadyFriendOrBlocked (index (bots c ! i)) res] else [])"
    by simp
  show ?thesis
    unfolding addFriend_run_accepted[OF assms]
    by (simp add: forEach_def logged_concat_map body concat_map_if_singleton)
qed

text \<open>
  In an addfriend batch the requests issued are those of the accounts that are not
  limited and are neither friends with nor blocked by the profile, whatever each
  \<open>addFriend\<close> call answers and whatever the capacity check reports (\<open>errs\<close> and \<open>rem\<close> are
  arbitrary): a failing call adds one error line naming its own account and removes no
  request of another account, and an account that is already friends is reported by one
  warning of its own.
\<close>

lemma addfriend_failures_isolated:
  assumes "readyAfter c \<noteq> 0" "truthy (arg0 args)" "resolve ev (arg0 args) = Inr res"
    "\<not> limited_is_true (user (main c))"
  shows "remote_calls (run_timers (ev\<lparr>addFriendError := errs, remaining := rem\<rparr>) c' cells
                      (addFriend_run ev c args))
        = map (\<lambda>i. AddFriend (index (bots c ! i)) res)
            (filter (\<lambda>i. \<not> limited_is_true (user (bots c ! i))
                         \<and> notFriendNorBlocked (bots c ! i) res)
               [0..<length (bots c)])"
    and "logged Error (run_timers (ev\<lparr>addFriendError := errs, remaining := rem\<rparr>) c' cells
                         (addFriend_run ev c args))
        = concat (map (\<lambda>i. case errs (index (bots c ! i)) res of
                               Some err \<Rightarrow> [ErrorAdding res (index (bots c ! i)) err]
                             | None \<Rightarrow> [])
            (filter (\<lambda>i. \<not> limited_is_true (user (bots c ! i))
                         \<and> notFriendNorBlocked (bots c ! i) res)
               [0..<length (bots c)]))"
    and "logged Warn (addFriend_run ev c args)
        = map (\<lambda>i. AlreadyFriendOrBlocked (index (bots c ! i)) res)
            (filter (\<lambda>i. \<not> limited_is_true (user (bots c ! i))
                         \<and> \<not> notFriendNorBlocked (bots c ! i) res)
               [0..<length (bots c)])"
proof -
  let ?ev' = "ev\<lparr>addFriendError := errs, remaining := rem\<rparr>"
  show "remote_calls (run_timers ?ev' c' cells (addFriend_run ev c args))
        = map (\<lambda>i. AddFriend (index (bots c ! i)) res)
            (filter (\<lambda>i. \<not> limited_is_true (user (bots c ! i))
                         \<and> notFriendNorBlocked (bots c ! i) res)
               [0..<length (bots c)])"
    by (rule remote_calls_addFriend[OF assms])
  show "logged Error (run_timers ?ev' c' cells (addFriend_run ev c args))
        = concat (map (\<lambda>i. case errs (index (bots c ! i)) res of
                               Some err \<Rightarrow> [ErrorAdding res (index (bots c ! i)) err]
                             | None \<Rightarrow> [])
            (filter (\<lambda>i. \<not> limited_is_true (user (bots c ! i))
                         \<and> notFriendNorBlocked (bots c ! i) res)
               [0..<length (bots c)]))"
    by (simp add: run_timers_addFriend[OF assms] logged_concat_map logged_Error_AddFriendTask)
  show "logged Warn (addFriend_run ev c args)
        = map (\<lambda>i. AlreadyFriendOrBlocked (index (bots c ! i)) res)
            (filter (\<lambda>i. \<not> limited_is_true (user (bots c ! i))
                         \<and> \<not> notFriendNorBlocked (bots c ! i) res)
               [0..<length (bots c)])"
    by (rule logged_Warn_addFriend[OF assms])
qed

lemma addfriend_failures_isolated_fleet:
  "remote_calls (run_timers fleet_env fleet [] (addFriend_run fleet_env fleet [''76561198000000002'']))
     = [AddFriend 0 ''76561198000000002'', AddFriend 3 ''76561198000000002'']
   \<and> logged Error (run_timers fleet_env fleet [] (addFriend_run fleet_env fleet [''76561198000000002'']))
     = [ErrorAdding ''76561198000000002'' 3 ''Timeout'']
   \<and> logged Warn (addFriend_run fleet_env fleet [''76561198000000002''])
     = [AlreadyFriendOrBlocked 2 ''76561198000000002'']"
proof -
  have upd: "fleet_env\<lparr>addFriendError := addFriendError fleet_env, remaining := remaining fleet_env\<rparr>
      = fleet_env" by simp
  have fr: "notFriendNorBlocked bot0 ''76561198000000002''"
    "\<not> notFriendNorBlocked bot2 ''76561198000000002''"
    "notFriendNorBlocked bot3 ''76561198000000002''"
    by (simp_all add: notFriendNorBlocked_def fleet_bots)
  have acc: "readyAfter fleet \<noteq> 0" "truthy (arg0 [''76561198000000002''])"
    "resolve fleet_env (arg0 [''76561198000000002'']) = Inr ''76561198000000002''"
    "\<not> limited_is_true (user (main fleet))"
    by (simp_all add: fleet_fields fleet_bots fleet_request)
  note calls = addfriend_failures_isolated(1)[OF acc, where errs = "addFriendError fleet_env"
      and rem = "remaining fleet_env" and c' = fleet and cells = "[]", unfolded upd]
  note errors = addfriend_failures_isolated(2)[OF acc, where errs = "addFriendError fleet_env"
      and rem = "remaining fleet_env" and c' = fleet and cells = "[]", unfolded upd]
  note warned = addfriend_failures_isolated(3)[OF acc]
  show ?thesis
    using calls errors warned by (simp add: fleet_fields fleet_bots fleet_request fr)
qed

text \<open>
  No timer of unfriendall ever logs an error: \<open>removeFriend\<close> is called without a
  callback, and the \<open>catch\<close> block that would log one encloses the call of \<open>setTimeout\<close>,
  which returns before any removal runs.
\<close>

lemma unfriendall_logs_no_error:
  "logged Error (fire ev c cells (UnfriendAllStart k)) = []"
  "logged Error (fire ev c cells (UnfriendAllItem i friend)) = []"
  by (auto simp: fire_def forEach_def logged_concat_map logged_def)

text \<open>
  C7. For addfriend the claim holds (lemma \<open>addfriend_failures_isolated\<close>). For
  unfriendall the code does not do what the claim says: a removal that fails is not
  reported for its item. The fleet starts unfriendall; the 30 second callback schedules
  the removals of the accounts at positions 0 and 2; before they fire the accounts at
  positions 2 and 3 go offline, so that \<open>getBots()\<close> has two entries left. The removal of
  account 2 then throws a \<open>TypeError\<close> inside its timer callback, which nothing catches,
  and no error line is logged for it.
\<close>

theorem unfriendall_failure_uncaught:
  "timers (snd (unfriendall_run fleet [] [])) = [(30000, UnfriendAllStart 0)]
   \<and> timers (fire_all fleet_env fleet [False] (timers (snd (unfriendall_run fleet [] []))))
     = [(0, UnfriendAllItem 0 ''76561198000000001''), (0, UnfriendAllItem 0 ''76561198000000099''),
        (2000, UnfriendAllItem 2 ''76561198000000002'')]
   \<and> fire_all fleet_env (fleet\<lparr>bots := [bot0, bot1]\<rparr>) [False]
        (timers (fire_all fleet_env fleet [False] (timers (snd (unfriendall_run fleet [] [])))))
     = [Log Info (RemovingFriend ''76561198000000001''), Remote (RemoveFriend 0 ''76561198000000001''),
        Log Debug (OwnerSkipped ''76561198000000099''),
        Log Info (RemovingFriend ''76561198000000002''), Uncaught TypeError]
   \<and> logged Error (fire_all fleet_env (fleet\<lparr>bots := [bot0, bot1]\<rparr>) [False]
        (timers (fire_all fleet_env fleet [False] (timers (snd (unfriendall_run fleet [] []))))))
     = []"
proof -
  have run: "timers (snd (unfriendall_run fleet [] [])) = [(30000, UnfriendAllStart 0)]"
    by (simp add: unfriendall_run_def fleet_fields fleet_request)
  have pending: "\<not> (0 < length [False] \<and> [False] ! 0)" by simp
  have start: "fire_all fleet_env fleet [False] [(30000, UnfriendAllStart 0)]
      = fire fleet_env fleet [False] (UnfriendAllStart 0)"
    by (simp add: fire_all_def)
  have items: "timers (fire_all fleet_env fleet [False] (timers (snd (unfriendall_run fleet [] []))))
     = [(0, UnfriendAllItem 0 ''76561198000000001''), (0, UnfriendAllItem 0 ''76561198000000099''),
        (2000, UnfriendAllItem 2 ''76561198000000002'')]"
    unfolding run start unfriendall_start_timers[OF pending]
    by (simp add: fleet_fields fleet_bots)
  have fired: "fire_all fleet_env (fleet\<lparr>bots := [bot0, bot1]\<rparr>) [False]
        [(0, UnfriendAllItem 0 ''76561198000000001''), (0, UnfriendAllItem 0 ''76561198000000099''),
        (2000, UnfriendAllItem 2 ''76561198000000002'')]
     = [Log Info (RemovingFriend ''76561198000000001''), Remote (RemoveFriend 0 ''76561198000000001''),
        Log Debug (OwnerSkipped ''76561198000000099''),
        Log Info (RemovingFriend ''76561198000000002''), Uncaught TypeError]"
    by (simp add: fire_all_def fire_def fleet_fields fleet_bots)
  show ?thesis
    unfolding items fired using run by simp
qed

subsection \<open>Delays of the bulk operations\<close>

text \<open>
  addfriend and unfriend set one timer per account, with the per-item delay (5000 ms and
  1000 ms) times the position of the account in the array returned by \<open>getBots()\<close>
  (lemmas \<open>addFriend_timers\<close>, \<open>unfriend_self_timers\<close> and \<open>unfriend_id_timers\<close>), so their
  calls are one per-item delay apart. The start callback of unfriendall sets one timer
  per account and friend, with the delay 1000 ms times the position of the account
  (lemma \<open>unfriendall_start_timers\<close>): the delay does not change from one friend of an
  account to the next.
\<close>

lemma busy_fields:
  "readyAfter busy_fleet \<noteq> 0" "ownerid busy_fleet = [''76561198000000099'']"
  "bots busy_fleet = [busy0, busy1]" "[0..<length (bots busy_fleet)] = [0, 1]"
  "bots busy_fleet ! 0 = busy0" "bots busy_fleet ! Suc 0 = busy1"
  "index busy0 = 0" "index busy1 = 1"
  "myFriends (user busy0) = [(''76561198000000011'', 3), (''76561198000000012'', 3),
                                 (''76561198000000013'', 3)]"
  "myFriends (user busy1) = [(''76561198000000021'', 3), (''76561198000000022'', 3),
                                 (''76561198000000023'', 3)]"
  by (simp_all add: busy_fleet_def busy0_def busy1_def upt_rec)


subsection \<open>Owners and the unfriend commands\<close>

lemma run_timers_Nil: "timers effs = [] \<Longrightarrow> run_timers ev c cells effs = []"
  by (simp add: run_timers_def)

lemma addFriend_run_cases:
  "timers (addFriend_run ev c args) = []
   \<or> (\<exists>res. readyAfter c \<noteq> 0 \<and> truthy (arg0 args) \<and> resolve ev (arg0 args) = Inr res
        \<and> \<not> limited_is_true (user (main c)))"
  by (auto simp: addFriend_run_def split: sum.splits)

lemma remote_calls_map_Remote: "remote_calls (map (\<lambda>x. Remote (f x)) xs) = map f xs"
  by (induction xs) simp_all

lemma remote_calls_unfriend_batch:
  assumes "timers effs = map (\<lambda>i. (1000 * i, UnfriendTask (bots c ! i) target)) [0..<length (bots c)]"
  shows "remote_calls (run_timers ev' c' cells effs)
           = map (\<lambda>i. RemoveFriend (index (bots c ! i)) target) [0..<length (bots c)]"
proof -
  let ?ts = "map (\<lambda>i. (1000 * i, UnfriendTask (bots c ! i) target))
               (filter (\<lambda>i. True) [0..<length (bots c)])"
  let ?first = "concat (map (\<lambda>i. fire ev' c' cells (UnfriendTask (bots c ! i) target))
                  (filter (\<lambda>i. True) [0..<length (bots c)]))"
  have ts: "timers effs = ?ts" using assms by simp
  have first: "fire_all ev' c' cells (timers effs) = ?first"
    unfolding ts by (rule fire_all_batch)
  have "timers ?first = []"
    by (rule timers_concat_Nil) (rule timers_fire_leaf)
  then have "run_timers ev' c' cells effs = ?first"
    by (simp add: run_timers_def first Let_def)
  then show ?thesis
    by (simp add: fire_def concat_map_singleton remote_calls_map_Remote)
qed

lemma unfriend_id_cases:
  "timers (unfriend_id ev c args ri) = []
   \<or> (\<exists>res. res \<notin> set (ownerid c)
        \<and> timers (unfriend_id ev c args ri)
            = map (\<lambda>i. (1000 * i, UnfriendTask (bots c ! i) res)) [0..<length (bots c)])"
  by (auto simp: unfriend_id_def timers_forEach split: sum.splits)

lemma unfriend_run_not_self:
  assumes "\<not> (\<not> truthy (arg0 args) \<and> truthy (userID ri) \<and> fromSteamChat ri)"
  shows "timers (unfriend_run ev c args ri) = []
         \<or> unfriend_run ev c args ri = unfriend_id ev c args ri"
  using assms by (auto simp: unfriend_run_def truthy_def split: option.splits)

lemma remote_calls_unfriendall_aborted:
  assumes "k < length cells \<and> cells ! k"
  shows "run_timers ev c cells [SetTimeout d (UnfriendAllStart k)] = [Log Info UnfriendAllAborted]"
  using assms by (simp add: run_timers_def fire_all_def fire_def)

lemma unfriendall_run_cases:
  "timers (snd (unfriendall_run c args cells0)) = []
   \<or> timers (snd (unfriendall_run c args cells0))
        = timers [SetTimeout 30000 (UnfriendAllStart (length cells0))]"
  by (simp add: unfriendall_run_def)

lemma unfriendall_calls_spare_owners:
  assumes "RemoveFriend n target
             \<in> set (remote_calls (run_timers ev c cells [SetTimeout d (UnfriendAllStart k)]))"
  shows "target \<notin> set (ownerid c)"
proof (cases "k < length cells \<and> cells ! k")
  case True
  with assms show ?thesis by (simp add: remote_calls_unfriendall_aborted)
next
  case False
  with assms show ?thesis by (auto simp: remote_calls_unfriendall)
qed

text \<open>
  C10, as stated, fails: \<open>unfriend\<close> without an argument, sent from the Steam chat, removes
  the requester from every account, and the requester may be an owner.
\<close>

theorem unfriend_removes_requesting_owner_counterexample:
  "remote_calls (run_timers fleet_env fleet [] (unfriend_run fleet_env fleet [] owner_in_chat))
     = [RemoveFriend 0 ''76561198000000099'', RemoveFriend 1 ''76561198000000099'',
        RemoveFriend 2 ''76561198000000099'', RemoveFriend 3 ''76561198000000099'']
   \<and> ''76561198000000099'' \<in> set (ownerid fleet)"
proof -
  have "timers (unfriend_run fleet_env fleet [] owner_in_chat)
      = map (\<lambda>i. (1000 * i, UnfriendTask (bots fleet ! i) ''76561198000000099''))
          [0..<length (bots fleet)]"
    by (rule unfriend_self_timers) (simp_all add: fleet_fields fleet_request)
  from remote_calls_unfriend_batch[OF this, of fleet_env fleet "[]"]
  show ?thesis by (simp add: fleet_fields fleet_bots)
qed

text \<open>
  C10, amended. A run of \<open>unfriend\<close> that is not the argument-less request from the Steam
  chat never passes an identifier of \<open>cachefile.ownerid\<close> to \<open>removeFriend\<close> (a resolved
  target that is an owner is refused before any removal is scheduled); no run of
  \<open>unfriendall\<close> does either (the owner list is read when each removal fires). The
  argument-less \<open>unfriend\<close> from the Steam chat removes the requester from every account,
  owner or not.
\<close>

theorem unfriend_spares_owners:
  "(\<not> (\<not> truthy (arg0 args) \<and> truthy (userID ri) \<and> fromSteamChat ri) \<longrightarrow>
      (\<forall>n target. RemoveFriend n target
           \<in> set (remote_calls (run_timers ev' c' cells (unfriend_run ev c args ri)))
         \<longrightarrow> target \<notin> set (ownerid c)))
   \<and> (\<forall>n target. RemoveFriend n target
           \<in> set (remote_calls (run_timers ev' c' cells (snd (unfriendall_run c args cells0))))
         \<longrightarrow> target \<notin> set (ownerid c'))
   \<and> (readyAfter c \<noteq> 0 \<and> \<not> truthy (arg0 args) \<and> fromSteamChat ri
        \<and> userID ri = Some requester \<and> requester \<noteq> [] \<longrightarrow>
      remote_calls (run_timers ev' c' cells (unfriend_run ev c args ri))
        = map (\<lambda>i. RemoveFriend (index (bots c ! i)) requester) [0..<length (bots c)])"
proof (intro conjI impI allI)
  fix n target
  assume ns: "\<not> (\<not> truthy (arg0 args) \<and> truthy (userID ri) \<and> fromSteamChat ri)"
    and call: "RemoveFriend n target
           \<in> set (remote_calls (run_timers ev' c' cells (unfriend_run ev c args ri)))"
  from unfriend_run_not_self[OF ns, of ev c]
  show "target \<notin> set (ownerid c)"
  proof
    assume "timers (unfriend_run ev c args ri) = []"
    with call show ?thesis by (simp add: run_timers_Nil)
  next
    assume eq: "unfriend_run ev c args ri = unfriend_id ev c args ri"
    from unfriend_id_cases[of ev c args ri] show ?thesis
    proof
      assume "timers (unfriend_id ev c args ri) = []"
      with call eq show ?thesis by (simp add: run_timers_Nil)
    next
      assume "\<exists>res. res \<notin> set (ownerid c)
        \<and> timers (unfriend_id ev c args ri)
            = map (\<lambda>i. (1000 * i, UnfriendTask (bots c ! i) res)) [0..<length (bots c)]"
      then obtain res where no: "res \<notin> set (ownerid c)"
        and t: "timers (unfriend_id ev c args ri)
            = map (\<lambda>i. (1000 * i, UnfriendTask (bots c ! i) res)) [0..<length (bots c)]"
        by blast
      from call have "target = res"
        unfolding eq remote_calls_unfriend_batch[OF t] by auto
      with no show ?thesis by simp
    qed
  qed
next
  fix n target
  assume call: "RemoveFriend n target
           \<in> set (remote_calls (run_timers ev' c' cells (snd (unfriendall_run c args cells0))))"
  from unfriendall_run_cases[of c args cells0]
  show "target \<notin> set (ownerid c')"
  proof
    assume "timers (snd (unfriendall_run c args cells0)) = []"
    with call show ?thesis by (simp add: run_timers_Nil)
  next
    assume t: "timers (snd (unfriendall_run c args cells0))
        = timers [SetTimeout 30000 (UnfriendAllStart (length cells0))]"
    from call show ?thesis
      unfolding run_timers_cong[OF t] by (rule unfriendall_calls_spare_owners)
  qed
next
  assume "readyAfter c \<noteq> 0 \<and> \<not> truthy (arg0 args) \<and> fromSteamChat ri
        \<and> userID ri = Some requester \<and> requester \<noteq> []"
  then have "timers (unfriend_run ev c args ri)
      = map (\<lambda>i. (1000 * i, UnfriendTask (bots c ! i) requester)) [0..<length (bots c)]"
    by (simp add: unfriend_self_timers)
  then show "remote_calls (run_timers ev' c' cells (unfriend_run ev c args ri))
        = map (\<lambda>i. RemoveFriend (index (bots c ! i)) requester) [0..<length (bots c)]"
    by (rule remote_calls_unfriend_batch)
qed

theorem unfriend_spares_owners_witness:
  "remote_calls (run_timers fleet_env fleet []
       (unfriend_run fleet_env fleet [''76561198000000099''] owner_in_chat)) = []
   \<and> remote_calls (run_timers fleet_env fleet []
       (unfriend_run fleet_env fleet [''76561198000000001''] owner_in_chat))
     = [RemoveFriend 0 ''76561198000000001'', RemoveFriend 1 ''76561198000000001'',
        RemoveFriend 2 ''76561198000000001'', RemoveFriend 3 ''76561198000000001'']
   \<and> RemoveFriend 0 ''76561198000000099''
       \<notin> set (remote_calls (run_timers fleet_env fleet [False] (snd (unfriendall_run fleet [] []))))
   \<and> remote_calls (run_timers fleet_env fleet [] (unfriend_run fleet_env fleet [] owner_in_chat))
     = [RemoveFriend 0 ''76561198000000099'', RemoveFriend 1 ''76561198000000099'',
        RemoveFriend 2 ''76561198000000099'', RemoveFriend 3 ''76561198000000099'']"
proof -
  have own: "''76561198000000099'' \<in> set (ownerid fleet)" by (simp add: fleet_fields)
  have "unfriend_run fleet_env fleet [''76561198000000099''] owner_in_chat
      = [Respond IdIsOwnerError]"
    by (simp add: unfriend_run_def unfriend_id_def fleet_fields fleet_request)
  then have a: "remote_calls (run_timers fleet_env fleet []
       (unfriend_run fleet_env fleet [''76561198000000099''] owner_in_chat)) = []"
    by (simp add: run_timers_Nil)
  have "timers (unfriend_id fleet_env fleet [''76561198000000001''] owner_in_chat)
      = map (\<lambda>i. (1000 * i, UnfriendTask (bots fleet ! i) ''76561198000000001''))
          [0..<length (bots fleet)]"
    by (rule unfriend_id_timers) (simp_all add: fleet_fields fleet_request)
  then have "timers (unfriend_run fleet_env fleet [''76561198000000001''] owner_in_chat)
      = map (\<lambda>i. (1000 * i, UnfriendTask (bots fleet ! i) ''76561198000000001''))
          [0..<length (bots fleet)]"
    by (simp add: unfriend_run_with_id fleet_fields fleet_request)
  from remote_calls_unfriend_batch[OF this, of fleet_env fleet "[]"]
  have b: "remote_calls (run_timers fleet_env fleet []
       (unfriend_run fleet_env fleet [''76561198000000001''] owner_in_chat))
     = [RemoveFriend 0 ''76561198000000001'', RemoveFriend 1 ''76561198000000001'',
        RemoveFriend 2 ''76561198000000001'', RemoveFriend 3 ''76561198000000001'']"
    by (simp add: fleet_fields fleet_bots)
  note th = unfriend_spares_owners[where args = "[]" and ri = owner_in_chat and ev' = fleet_env
      and c' = fleet and cells = "[False]" and ev = fleet_env and c = fleet and ?cells0.0 = "[]"
      and requester = "''76561198000000099''"]
  from th own have c: "RemoveFriend 0 ''76561198000000099''
       \<notin> set (remote_calls (run_timers fleet_env fleet [False] (snd (unfriendall_run fleet [] []))))"
    by blast
  note th' = unfriend_spares_owners[where args = "[]" and ri = owner_in_chat and ev' = fleet_env
      and c' = fleet and cells = "[]" and ev = fleet_env and c = fleet and ?cells0.0 = "[]"
      and requester = "''76561198000000099''"]
  have d: "remote_calls (run_timers fleet_env fleet [] (unfriend_run fleet_env fleet [] owner_in_chat))
     = [RemoveFriend 0 ''76561198000000099'', RemoveFriend 1 ''76561198000000099'',
        RemoveFriend 2 ''76561198000000099'', RemoveFriend 3 ''76561198000000099'']"
    using th' by (simp add: fleet_fields fleet_bots fleet_request)
  from a b c d show ?thesis by blast
qed

subsection \<open>Limited accounts and addfriend\<close>

lemma addFriend_tasks_unlimited:
  assumes "(d, AddFriendTask e res) \<in> set (timers (addFriend_run ev c args))"
  shows "e \<in> set (bots c) \<and> \<not> limited_is_true (user e) \<and> notFriendNorBlocked e res"
proof -
  from addFriend_run_cases[of ev c args] show ?thesis
  proof
    assume "timers (addFriend_run ev c args) = []"
    with assms show ?thesis by simp
  next
    assume "\<exists>res. readyAfter c \<noteq> 0 \<and> truthy (arg0 args) \<and> resolve ev (arg0 args) = Inr res
        \<and> \<not> limited_is_true (user (main c))"
    then obtain r where acc: "readyAfter c \<noteq> 0" "truthy (arg0 args)"
      "resolve ev (arg0 args) = Inr r" "\<not> limited_is_true (user (main c))" by blast
    from assms show ?thesis
      unfolding addFriend_timers[OF acc] by auto
  qed
qed

lemma addFriend_calls_unlimited:
  assumes "AddFriend n target
             \<in> set (remote_calls (run_timers ev' c' cells (addFriend_run ev c args)))"
  shows "\<exists>e\<in>set (bots c). index e = n \<and> \<not> limited_is_true (user e)"
proof -
  from addFriend_run_cases[of ev c args] show ?thesis
  proof
    assume "timers (addFriend_run ev c args) = []"
    with assms show ?thesis by (simp add: run_timers_Nil)
  next
    assume "\<exists>res. readyAfter c \<noteq> 0 \<and> truthy (arg0 args) \<and> resolve ev (arg0 args) = Inr res
        \<and> \<not> limited_is_true (user (main c))"
    then obtain r where acc: "readyAfter c \<noteq> 0" "truthy (arg0 args)"
      "resolve ev (arg0 args) = Inr r" "\<not> limited_is_true (user (main c))" by blast
    from assms show ?thesis
      unfolding remote_calls_addFriend[OF acc] by auto
  qed
qed

lemma addFriend_limited_reported:
  assumes "readyAfter c \<noteq> 0" "truthy (arg0 args)" "resolve ev (arg0 args) = Inr res"
    "i < length (bots c)" "limited_is_true (user (bots c ! i))"
  shows "Respond (AddFriendCmdAccLimited res) \<in> set (addFriend_run ev c args)
         \<or> Log Error (CantAddLimited res (index (bots c ! i))) \<in> set (addFriend_run ev c args)"
proof (cases "limited_is_true (user (main c))")
  case True
  with assms show ?thesis by (simp add: addFriend_run_def)
next
  case False
  have "Log Error (CantAddLimited res (index (bots c ! i)))
          \<in> set (forEach (bots c) (\<lambda>e i.
                if limited_is_true (user e) then [Log Error (CantAddLimited res (index e))]
                else if notFriendNorBlocked e res
                  then [SetTimeout (5000 * i) (AddFriendTask e res)]
                  else [Log Warn (AlreadyFriendOrBlocked (index e) res)]))"
    using assms(4,5) by (auto simp: forEach_def intro!: bexI[of _ i])
  then show ?thesis
    unfolding addFriend_run_accepted[OF assms(1-3) False] by simp
qed

text \<open>
  C3, as stated, fails in its last part: when the main account is limited the command
  answers with the "account limited" message and returns before the loop, so an unlimited
  account of the same batch, not yet friends with the profile, issues no request.
\<close>

theorem addfriend_main_limited_counterexample:
  "\<not> limited_is_true (user bot0) \<and> notFriendNorBlocked bot0 ''76561198000000002''
   \<and> addFriend_run fleet_env (fleet\<lparr>main := bot1, bots := [bot1, bot0]\<rparr>) [''76561198000000002'']
       = [Respond (AddFriendCmdAccLimited ''76561198000000002'')]
   \<and> remote_calls (run_timers fleet_env (fleet\<lparr>main := bot1, bots := [bot1, bot0]\<rparr>) []
        (addFriend_run fleet_env (fleet\<lparr>main := bot1, bots := [bot1, bot0]\<rparr>)
           [''76561198000000002''])) = []"
proof -
  have run: "addFriend_run fleet_env (fleet\<lparr>main := bot1, bots := [bot1, bot0]\<rparr>)
        [''76561198000000002''] = [Respond (AddFriendCmdAccLimited ''76561198000000002'')]"
    by (simp add: addFriend_run_def fleet_fields fleet_bots fleet_request)
  have "notFriendNorBlocked bot0 ''76561198000000002''"
    by (simp add: notFriendNorBlocked_def fleet_bots)
  then show ?thesis
    by (simp add: run run_timers_Nil fleet_bots)
qed

text \<open>
  C3, amended. No \<open>addFriend\<close> call is ever issued for a limited account, and no timer
  is set for one; once the profile is resolved, a limited account of the batch is
  reported, by the "account limited" response (main account limited) or by an error line
  naming the account. When the main account is not limited, every account of the batch
  that is not limited and is neither friends with nor blocked by the profile sets its
  timer and issues its request. Comment and vote requests are not blocked by the
  limitation alone (policy modelled from the specification).
\<close>

theorem addfriend_limited_accounts:
  "(\<forall>n target. AddFriend n target
        \<in> set (remote_calls (run_timers ev' c' cells (addFriend_run ev c args)))
      \<longrightarrow> (\<exists>e\<in>set (bots c). index e = n \<and> \<not> limited_is_true (user e)))
   \<and> (\<forall>d e target. (d, AddFriendTask e target) \<in> set (timers (addFriend_run ev c args))
      \<longrightarrow> \<not> limited_is_true (user e))
   \<and> (readyAfter c \<noteq> 0 \<and> truthy (arg0 args) \<and> resolve ev (arg0 args) = Inr res
        \<and> i < length (bots c) \<and> limited_is_true (user (bots c ! i)) \<longrightarrow>
      Respond (AddFriendCmdAccLimited res) \<in> set (addFriend_run ev c args)
      \<or> Log Error (CantAddLimited res (index (bots c ! i))) \<in> set (addFriend_run ev c args))
   \<and> (readyAfter c \<noteq> 0 \<and> truthy (arg0 args) \<and> resolve ev (arg0 args) = Inr res
        \<and> \<not> limited_is_true (user (main c))
        \<and> i < length (bots c) \<and> \<not> limited_is_true (user (bots c ! i))
        \<and> notFriendNorBlocked (bots c ! i) res \<longrightarrow>
      (5000 * i, AddFriendTask (bots c ! i) res) \<in> set (timers (addFriend_run ev c args))
      \<and> AddFriend (index (bots c ! i)) res
          \<in> set (remote_calls (run_timers ev' c' cells (addFriend_run ev c args))))
   \<and> limitationPolicy Comment acc = Issued \<and> limitationPolicy Vote acc = Issued
   \<and> (limitationPolicy FriendAdd acc = DroppedLimitationError) = limited_is_true acc"
proof (intro conjI impI allI)
  fix n target
  assume "AddFriend n target
        \<in> set (remote_calls (run_timers ev' c' cells (addFriend_run ev c args)))"
  then show "\<exists>e\<in>set (bots c). index e = n \<and> \<not> limited_is_true (user e)"
    by (rule addFriend_calls_unlimited)
next
  fix d e target
  assume "(d, AddFriendTask e target) \<in> set (timers (addFriend_run ev c args))"
  then show "\<not> limited_is_true (user e)"
    by (simp add: addFriend_tasks_unlimited)
next
  assume "readyAfter c \<noteq> 0 \<and> truthy (arg0 args) \<and> resolve ev (arg0 args) = Inr res
        \<and> i < length (bots c) \<and> limited_is_true (user (bots c ! i))"
  then show "Respond (AddFriendCmdAccLimited res) \<in> set (addFriend_run ev c args)
      \<or> Log Error (CantAddLimited res (index (bots c ! i))) \<in> set (addFriend_run ev c args)"
    by (simp add: addFriend_limited_reported)
next
  assume a: "readyAfter c \<noteq> 0 \<and> truthy (arg0 args) \<and> resolve ev (arg0 args) = Inr res
        \<and> \<not> limited_is_true (user (main c))
        \<and> i < length (bots c) \<and> \<not> limited_is_true (user (bots c ! i))
        \<and> notFriendNorBlocked (bots c ! i) res"
  then have acc: "readyAfter c \<noteq> 0" "truthy (arg0 args)" "resolve ev (arg0 args) = Inr res"
    "\<not> limited_is_true (user (main c))" by simp_all
  from a show "(5000 * i, AddFriendTask (bots c ! i) res) \<in> set (timers (addFriend_run ev c args))"
    unfolding addFriend_timers[OF acc] by auto
  from a show "AddFriend (index (bots c ! i)) res
          \<in> set (remote_calls (run_timers ev' c' cells (addFriend_run ev c args)))"
    unfolding remote_calls_addFriend[OF acc] by auto
next
  show "limitationPolicy Comment acc = Issued" by (simp add: limitationPolicy_def)
  show "limitationPolicy Vote acc = Issued" by (simp add: limitationPolicy_def)
  show "(limitationPolicy FriendAdd acc = DroppedLimitationError) = limited_is_true acc"
    by (simp add: limitationPolicy_def)
qed

theorem addfriend_limited_accounts_witness:
  "AddFriend 1 ''76561198000000002''
     \<notin> set (remote_calls (run_timers fleet_env fleet []
               (addFriend_run fleet_env fleet [''76561198000000002''])))
   \<and> Log Error (CantAddLimited ''76561198000000002'' 1)
     \<in> set (addFriend_run fleet_env fleet [''76561198000000002''])
   \<and> (15000, AddFriendTask bot3 ''76561198000000002'')
     \<in> set (timers (addFriend_run fleet_env fleet [''76561198000000002'']))
   \<and> AddFriend 3 ''76561198000000002''
     \<in> set (remote_calls (run_timers fleet_env fleet []
               (addFriend_run fleet_env fleet [''76561198000000002''])))
   \<and> limitationPolicy Comment (user bot1) = Issued"
proof -
  have fr: "notFriendNorBlocked bot3 ''76561198000000002''"
    by (simp add: notFriendNorBlocked_def fleet_bots)
  have nl: "Respond (AddFriendCmdAccLimited ''76561198000000002'')
      \<notin> set (addFriend_run fleet_env fleet [''76561198000000002''])"
    by (auto simp: addFriend_run_def forEach_def fleet_fields fleet_bots fleet_request)
  note th1 = addfriend_limited_accounts[where ev' = fleet_env and c' = fleet and cells = "[]"
      and ev = fleet_env and c = fleet and args = "[''76561198000000002'']"
      and res = "''76561198000000002''" and i = 1 and acc = "user bot1"]
  note th3 = addfriend_limited_accounts[where ev' = fleet_env and c' = fleet and cells = "[]"
      and ev = fleet_env and c = fleet and args = "[''76561198000000002'']"
      and res = "''76561198000000002''" and i = 3 and acc = "user bot1"]
  have a: "AddFriend 1 ''76561198000000002''
     \<notin> set (remote_calls (run_timers fleet_env fleet []
               (addFriend_run fleet_env fleet [''76561198000000002''])))"
    using th1 by (auto simp: fleet_fields fleet_bots)
  have b: "Log Error (CantAddLimited ''76561198000000002'' 1)
     \<in> set (addFriend_run fleet_env fleet [''76561198000000002''])"
    using th1 nl by (simp add: fleet_fields fleet_bots fleet_request)
  have c: "(15000, AddFriendTask bot3 ''76561198000000002'')
     \<in> set (timers (addFriend_run fleet_env fleet [''76561198000000002'']))
   \<and> AddFriend 3 ''76561198000000002''
     \<in> set (remote_calls (run_timers fleet_env fleet []
               (addFriend_run fleet_env fleet [''76561198000000002''])))"
    using th3 fr by (simp add: fleet_fields fleet_bots fleet_request)
  have d: "limitationPolicy Comment (user bot1) = Issued"
    using th1 by simp
  from a b c d show ?thesis by blast
qed

subsection \<open>The friendlist capacity warning\<close>

text \<open>
  The callback that addfriend hands to the capacity check logs a line of the command's
  own, "The friendlist space of bot... is running low!", when the number it is given is
  below 25 (\<open>null\<close>, given on failure, counts as 0).
\<close>

lemma addfriend_space_low_line:
  "logged Warn (fire ev c cells (AddFriendTask e res))
     = (if remainingBelow25 (remaining ev (index e))
        then [FriendlistSpaceLow (index e) (remaining ev (index e))] else [])"
  by (simp add: fire_def split: option.splits)

lemma warnings_simps:
  "warnings [] = []"
  "warnings (xs @ ys) = warnings xs @ warnings ys"
  "warnings (if w then [LowCapacityWarning n r] else []) = (if w then [(n, r)] else [])"
  by (simp_all add: warnings_def)

lemma warnings_removal:
  "warnings (case x of None \<Rightarrow> [] | Some entry \<Rightarrow> [QueuedRemoval n (fst entry)]) = []"
  by (cases x) (simp_all add: warnings_def)

text \<open>
  C8. A capacity check on an account emits its low-capacity warning exactly when the
  remaining capacity, \<open>maxCapacity\<close> minus the number of relationships, is below the
  warn threshold of the policy, which is 10 in the default policy; it emits at most one
  warning, whatever the number of relationships. The check is the one modelled from the
  specification; its body is not among the files.
\<close>

theorem capacity_warning_threshold:
  "warnings (fst (friendListCapacityCheck pol b ledger))
     = (if snd (friendListCapacityCheck pol b ledger) < warnThreshold pol
        then [(index b, snd (friendListCapacityCheck pol b ledger))] else [])
   \<and> snd (friendListCapacityCheck pol b ledger)
       = maxCapacity pol - int (length (myFriends (user b)))
   \<and> length (warnings (fst (friendListCapacityCheck pol b ledger))) \<le> 1
   \<and> warnThreshold (default_policy cap) = 10"
  by (simp add: friendListCapacityCheck_def Let_def warnings_simps warnings_removal
        default_policy_def)

theorem capacity_warning_threshold_witness:
  "warnings (fst (friendListCapacityCheck (default_policy 12) busy0 [])) = [(0, 9)]
   \<and> warnings (fst (friendListCapacityCheck (default_policy 13) busy0 [])) = []
   \<and> warnings (fst (friendListCapacityCheck (default_policy 18) busy0 [])) = []"
proof -
  have len: "length (myFriends (user busy0)) = 3" by (simp add: busy_fields)
  have a: "warnings (fst (friendListCapacityCheck (default_policy 12) busy0 [])) = [(0, 9)]"
    using capacity_warning_threshold[where pol = "default_policy 12" and b = busy0
        and ledger = "[]" and cap = 12]
    by (simp add: len busy_fields default_policy_def)
  have b: "warnings (fst (friendListCapacityCheck (default_policy 13) busy0 [])) = []"
    using capacity_warning_threshold[where pol = "default_policy 13" and b = busy0
        and ledger = "[]" and cap = 13]
    by (simp add: len busy_fields default_policy_def)
  have c: "warnings (fst (friendListCapacityCheck (default_policy 18) busy0 [])) = []"
    using capacity_warning_threshold[where pol = "default_policy 18" and b = busy0
        and ledger = "[]" and cap = 18]
    by (simp add: len busy_fields default_policy_def)
  from a b c show ?thesis by blast
qed

subsection \<open>Aborting unfriendall\<close>

lemma unfriendall_run_store:
  "fst (unfriendall_run c args cells) = cells @ [readyAfter c \<noteq> 0 \<and> arg0 args = Some ''abort'']"
  by (simp add: unfriendall_run_def)

lemma unfriendall_run_keeps_cells:
  "k < length cells \<Longrightarrow> fst (unfriendall_run c args cells) ! k = cells ! k"
  by (simp add: unfriendall_run_store nth_append)

text \<open>
  The cell of a pending run is \<open>False\<close> when its timer is set, and a later invocation
  only appends a cell of its own: no invocation of the command reaches it.
\<close>

lemma unfriendall_later_invocations_keep_cells:
  "k < length cells \<Longrightarrow>
   fold (\<lambda>args cs. fst (unfriendall_run c args cs)) argss cells ! k = cells ! k"
proof (induction argss arbitrary: cells)
  case Nil
  then show ?case by simp
next
  case (Cons a argss)
  have "k < length (fst (unfriendall_run c a cells))"
    using Cons.prems by (simp add: unfriendall_run_store)
  then have "fold (\<lambda>args cs. fst (unfriendall_run c args cs)) argss (fst (unfriendall_run c a cells)) ! k
      = fst (unfriendall_run c a cells) ! k"
    by (rule Cons.IH)
  then show ?case
    using Cons.prems by (simp add: unfriendall_run_keeps_cells)
qed

lemma unfriendall_pending_cell_False:
  assumes "(d, UnfriendAllStart k) \<in> set (timers (snd (unfriendall_run c args cells)))"
  shows "k = length cells \<and> d = 30000 \<and> fst (unfriendall_run c args cells) ! k = False"
  using assms by (auto simp: unfriendall_run_def split: if_splits)

text \<open>
  The callback of a pending run never takes the branch that logs the abort, whatever
  invocations follow the one that set its timer.
\<close>

lemma unfriendall_abort_branch_dead:
  assumes "(d, UnfriendAllStart k) \<in> set (timers (snd (unfriendall_run c args cells)))"
  shows "Log Info UnfriendAllAborted
           \<notin> set (fire ev c'
                    (fold (\<lambda>later cs. fst (unfriendall_run c later cs)) argss
                       (fst (unfriendall_run c args cells)))
                    (UnfriendAllStart k))"
proof -
  let ?cells1 = "fst (unfriendall_run c args cells)"
  note pend = unfriendall_pending_cell_False[OF assms]
  from pend have k: "k = length cells" by blast
  from pend have cell: "?cells1 ! k = False" by blast
  have "k < length ?cells1" using k by (simp add: unfriendall_run_store)
  then have "fold (\<lambda>later cs. fst (unfriendall_run c later cs)) argss ?cells1 ! k = ?cells1 ! k"
    by (rule unfriendall_later_invocations_keep_cells)
  with cell have "\<not> fold (\<lambda>later cs. fst (unfriendall_run c later cs)) argss ?cells1 ! k"
    by simp
  then show ?thesis
    by (auto simp: fire_def forEach_def)
qed

text \<open>
  C5. The code does not do what the claim says. A run is pending; the command is invoked
  again with \<open>abort\<close> before the 30 second timer fires, answers that the run was aborted
  and sets the flag of its own invocation; when the timers of the pending run fire, every
  removal is still dispatched. The argument of the command is described as "Aborts a
  unfriendall request if it did not start yet".
\<close>

theorem unfriendall_abort_ignored:
  "unfriendall_run fleet [] [] =
     ([False], [Respond UnfriendAllCmdPending, SetTimeout 30000 (UnfriendAllStart 0)])
   \<and> unfriendall_run fleet [''abort''] (fst (unfriendall_run fleet [] []))
     = ([False, True], [Respond UnfriendAllCmdAbort])
   \<and> remote_calls (run_timers fleet_env fleet
         (fst (unfriendall_run fleet [''abort''] (fst (unfriendall_run fleet [] []))))
         (snd (unfriendall_run fleet [] [])))
       = [RemoveFriend 0 ''76561198000000001'', RemoveFriend 2 ''76561198000000002'']"
proof -
  have run: "unfriendall_run fleet [] [] =
     ([False], [Respond UnfriendAllCmdPending, SetTimeout 30000 (UnfriendAllStart 0)])"
    by (simp add: unfriendall_run_def fleet_fields fleet_request)
  have abort: "unfriendall_run fleet [''abort''] [False]
      = ([False, True], [Respond UnfriendAllCmdAbort])"
    by (simp add: unfriendall_run_def fleet_fields fleet_request)
  have pending: "\<not> (0 < length [False, True] \<and> [False, True] ! 0)" by simp
  have t: "timers [Respond UnfriendAllCmdPending, SetTimeout 30000 (UnfriendAllStart 0)]
      = timers [SetTimeout 30000 (UnfriendAllStart 0)]" by simp
  have "remote_calls (run_timers fleet_env fleet [False, True]
        [Respond UnfriendAllCmdPending, SetTimeout 30000 (UnfriendAllStart 0)])
       = [RemoveFriend 0 ''76561198000000001'', RemoveFriend 2 ''76561198000000002'']"
    unfolding run_timers_cong[OF t] remote_calls_unfriendall[OF pending]
    by (simp add: fleet_fields fleet_bots)
  then show ?thesis
    by (simp add: run abort)
qed

section \<open>Properties: data kept over a restart\<close>

subsection \<open>Reading back what was written\<close>

lemma unhex_hex_digit: "n < 16 \<Longrightarrow> unhex (hex_digit n) = Some n"
proof -
  have "list_all (\<lambda>k. unhex (hex_digit k) = Some k) [0..<16]"
    by (simp add: unhex_def hex_digit_def upt_rec)
  then have every: "\<forall>k \<in> set [0..<16]. unhex (hex_digit k) = Some k"
    by (simp only: list_all_iff)
  assume "n < 16"
  then have "n \<in> set [0..<16]" by simp
  with every show ?thesis by blast
qed

lemma read_code_unit_low:
  assumes "(of_char ch :: nat) < 32"
  shows "read_code_unit (take 4 (CHR ''0'' # CHR ''0'' # hex_digit (of_char ch div 16)
            # hex_digit (of_char ch mod 16) # tail)) = Some (of_char ch)"
proof -
  have a: "unhex (hex_digit (of_char ch div 16)) = Some (of_char ch div 16)"
    using assms by (intro unhex_hex_digit) simp
  have b: "unhex (hex_digit (of_char ch mod 16)) = Some (of_char ch mod 16)"
    by (intro unhex_hex_digit) simp
  have z: "unhex (CHR ''0'') = Some 0" by (simp add: unhex_def)
  show ?thesis
    by (simp add: read_code_unit_def a b z)
qed

lemma read_string_step:
  "read_string (Suc n) (quote_char ch @ tail)
     = map_option (\<lambda>(str, r). (ch # str, r)) (read_string n tail)"
proof -
  consider (named) "ch \<in> {CHR 0x22, CHR 0x5C, CHR 0x08, CHR 0x0C, CHR 0x0A, CHR 0x0D, CHR 0x09}"
    | (low) "ch \<notin> {CHR 0x22, CHR 0x5C, CHR 0x08, CHR 0x0C, CHR 0x0A, CHR 0x0D, CHR 0x09}"
        "(of_char ch :: nat) < 32"
    | (plain) "ch \<notin> {CHR 0x22, CHR 0x5C, CHR 0x08, CHR 0x0C, CHR 0x0A, CHR 0x0D, CHR 0x09}"
        "\<not> (of_char ch :: nat) < 32"
    by blast
  then show ?thesis
  proof cases
    case named
    then show ?thesis
      by (auto simp: quote_char_def unescape_def)
  next
    case low
    have q: "quote_char ch = [CHR 0x5C, CHR ''u'', CHR ''0'', CHR ''0'',
              hex_digit (of_char ch div 16), hex_digit (of_char ch mod 16)]"
      using low by (simp add: quote_char_def)
    have lt: "(of_char ch :: nat) < 256" using low(2) by simp
    show ?thesis
      unfolding q using read_code_unit_low[OF low(2)] lt
      by (simp del: take_Suc_Cons)
  next
    case plain
    then show ?thesis
      by (simp add: quote_char_def)
  qed
qed

lemma read_string_quoted:
  "length str < n \<Longrightarrow>
   read_string n (concat (map quote_char str) @ CHR 0x22 # rest) = Some (str, rest)"
proof (induction str arbitrary: n)
  case Nil
  then obtain m where "n = Suc m" by (cases n) auto
  then show ?case by simp
next
  case (Cons ch str)
  then obtain m where n: "n = Suc m" and m: "length str < m" by (cases n) auto
  have "read_string (Suc m) (quote_char ch @ (concat (map quote_char str) @ CHR 0x22 # rest))
      = map_option (\<lambda>(s, r). (ch # s, r))
          (read_string m (concat (map quote_char str) @ CHR 0x22 # rest))"
    by (rule read_string_step)
  then show ?case
    by (simp add: n Cons.IH[OF m])
qed

lemma length_quote_char: "1 \<le> length (quote_char ch)"
  by (simp add: quote_char_def)

lemma length_quoted_body: "length str \<le> length (concat (map quote_char str))"
proof (induction str)
  case Nil
  then show ?case by simp
next
  case (Cons ch str)
  then show ?case using length_quote_char[of ch] by simp
qed

lemma read_string_after_quote:
  "read_string (length (concat (map quote_char str) @ CHR 0x22 # rest))
     (concat (map quote_char str) @ CHR 0x22 # rest) = Some (str, rest)"
proof -
  have "length str < length (concat (map quote_char str) @ CHR 0x22 # rest)"
    using length_quoted_body[of str] by simp
  then show ?thesis by (rule read_string_quoted)
qed

lemma skip_ws_token:
  "\<not> is_ws ch \<Longrightarrow> skip_ws (ch # cs) = ch # cs"
  by simp

lemma read_value_string:
  "read_value (Suc n) (quote str @ rest) = Some (JStr str, rest)"
proof -
  let ?r = "concat (map quote_char str) @ CHR 0x22 # rest"
  have shape: "quote str @ rest = CHR 0x22 # ?r" by (simp add: quote_def)
  have ws: "skip_ws (CHR 0x22 # ?r) = CHR 0x22 # ?r" by (simp add: is_ws_def)
  have "read_value (Suc n) (CHR 0x22 # ?r)
      = map_option (\<lambda>(s, r'). (JStr s, r')) (read_string (length ?r) ?r)"
    by (simp only: read_value.simps ws list.case simp_thms if_True)
  then show ?thesis
    by (simp only: shape read_string_after_quote option.map prod.case)
qed


lemma quote_starts: "quote str = CHR 0x22 # concat (map quote_char str) @ [CHR 0x22]"
  by (simp add: quote_def)

lemma commas_quote_starts:
  assumes "xs \<noteq> []"
  shows "\<exists>tail. commas (map quote xs) @ others = CHR 0x22 # tail"
proof (cases xs)
  case Nil
  with assms show ?thesis by simp
next
  case (Cons x ys)
  then show ?thesis by (cases ys) (simp_all add: quote_def)
qed

lemma read_elements_strings:
  "xs \<noteq> [] \<Longrightarrow> length xs < n \<Longrightarrow>
   read_elements n (commas (map quote xs) @ CHR '']'' # rest) = Some (map JStr xs, rest)"
proof (induction xs arbitrary: n)
  case Nil
  then show ?case by simp
next
  case (Cons x xs)
  from Cons.prems(2) obtain k where n: "n = Suc (Suc k)" and k: "length xs \<le> k"
    by (cases n; cases "n - 1") auto
  show ?case
  proof (cases xs)
    case Nil
    have "read_value (Suc k) (quote x @ CHR '']'' # rest) = Some (JStr x, CHR '']'' # rest)"
      by (rule read_value_string)
    then show ?thesis
      by (simp add: n Nil is_ws_def)
  next
    case (Cons y ys)
    let ?others = "commas (map quote (y # ys)) @ CHR '']'' # rest"
    have v: "read_value (Suc k) (quote x @ CHR '','' # ?others) = Some (JStr x, CHR '','' # ?others)"
      by (rule read_value_string)
    have "length xs < Suc k" using k by simp
    then have ih: "read_elements (Suc k) ?others = Some (map JStr (y # ys), rest)"
      using Cons.IH[of "Suc k"] Cons by simp
    have shape: "commas (map quote (x # y # ys)) @ CHR '']'' # rest = quote x @ CHR '','' # ?others"
      by simp
    have ws: "skip_ws (CHR '','' # ?others) = CHR '','' # ?others" by (simp add: is_ws_def)
    have "read_elements (Suc (Suc k)) (quote x @ CHR '','' # ?others)
        = map_option (\<lambda>(vs, r). (JStr x # vs, r)) (read_elements (Suc k) ?others)"
      by (simp only: read_elements.simps v option.case prod.case ws list.case simp_thms if_True)
    with ih have "read_elements (Suc (Suc k)) (quote x @ CHR '','' # ?others)
        = Some (JStr x # map JStr (y # ys), rest)"
      by (simp only: option.map prod.case)
    then have "read_elements n (commas (map quote (x # xs)) @ CHR '']'' # rest)
        = Some (JStr x # map JStr xs, rest)"
      by (simp only: shape n Cons)
    then show ?thesis by simp
  qed
qed

lemma read_value_string_array:
  assumes "length xs + 1 < n"
  shows "read_value n (JSON_stringify (JArr (map JStr xs)) @ rest) = Some (JArr (map JStr xs), rest)"
proof -
  from assms obtain m where n: "n = Suc m" and m: "length xs < m" by (cases n) auto
  have w: "JSON_stringify (JArr (map JStr xs)) @ rest
      = CHR ''['' # (commas (map quote xs) @ CHR '']'' # rest)"
    by (simp add: o_def)
  show ?thesis
  proof (cases "xs = []")
    case True
    then show ?thesis by (simp add: n is_ws_def)
  next
    case False
    from commas_quote_starts[OF False, of "CHR '']'' # rest"]
    obtain tail where t: "commas (map quote xs) @ CHR '']'' # rest = CHR 0x22 # tail" by blast
    have ws: "skip_ws (commas (map quote xs) @ CHR '']'' # rest)
        = commas (map quote xs) @ CHR '']'' # rest"
      unfolding t by (simp add: is_ws_def)
    have ne: "skip_ws (commas (map quote xs) @ CHR '']'' # rest) = CHR 0x22 # tail"
      using ws t by simp
    have "read_value (Suc m) (CHR ''['' # (commas (map quote xs) @ CHR '']'' # rest))
        = map_option (\<lambda>(vs, r). (JArr vs, r))
            (read_elements m (commas (map quote xs) @ CHR '']'' # rest))"
      by (simp add: is_ws_def ne del: read_elements.simps)
    then show ?thesis
      unfolding w n by (simp add: read_elements_strings[OF False m])
  qed
qed

lemma read_value_bool:
  "read_value (Suc n) (JSON_stringify (JBool b) @ rest) = Some (JBool b, rest)"
  by (cases b) (simp_all add: is_ws_def read_word_def)

lemma read_members_step:
  assumes "read_value n body = Some (v, sep # others)" "sep = CHR '','' \<or> sep = CHR ''}''"
  shows "read_members (Suc n) (quote k @ CHR '':'' # body)
     = (if sep = CHR '','' then map_option (\<lambda>(kvs, r). ((k, v) # kvs, r)) (read_members n others)
        else Some ([(k, v)], others))"
proof -
  let ?r = "concat (map quote_char k) @ CHR 0x22 # (CHR '':'' # body)"
  have shape: "quote k @ CHR '':'' # body = CHR 0x22 # ?r" by (simp add: quote_def)
  have ws: "skip_ws (CHR 0x22 # ?r) = CHR 0x22 # ?r" by (simp add: is_ws_def)
  have key: "read_string (length ?r) ?r = Some (k, CHR '':'' # body)"
    by (rule read_string_after_quote)
  have ws2: "skip_ws (CHR '':'' # body) = CHR '':'' # body" by (simp add: is_ws_def)
  have ws3: "skip_ws (sep # others) = sep # others" using assms(2) by (auto simp: is_ws_def)
  show ?thesis
    unfolding shape
    by (simp only: read_members.simps ws list.case simp_thms if_False key option.case
          prod.case ws2 assms(1) ws3)
       (use assms(2) in auto)
qed

lemma length_quote: "2 \<le> length (quote str)"
  by (simp add: quote_def)

lemma length_commas_quote: "length xs \<le> length (commas (map quote xs))"
proof (induction xs)
  case Nil
  then show ?case by simp
next
  case (Cons x xs)
  then show ?case using length_quote[of x] by (cases xs) simp_all
qed


lemma write_object3:
  "JSON_stringify (JObj [(k1, v1), (k2, v2), (k3, v3)])
     = CHR ''{'' # (quote k1 @ CHR '':'' # (JSON_stringify v1 @ CHR '','' #
         (quote k2 @ CHR '':'' # (JSON_stringify v2 @ CHR '','' #
         (quote k3 @ CHR '':'' # (JSON_stringify v3 @ CHR ''}'' # []))))))"
  by simp

lemma write_object2:
  "JSON_stringify (JObj [(k1, v1), (k2, v2)])
     = CHR ''{'' # (quote k1 @ CHR '':'' # (JSON_stringify v1 @ CHR '','' #
         (quote k2 @ CHR '':'' # (JSON_stringify v2 @ CHR ''}'' # []))))"
  by simp

lemma read_value_object:
  "read_value (Suc n) (CHR ''{'' # (quote k @ others))
     = map_option (\<lambda>(kvs, r). (JObj kvs, r)) (read_members n (quote k @ others))"
proof -
  have ws: "skip_ws (CHR ''{'' # (quote k @ others)) = CHR ''{'' # (quote k @ others)"
    by (simp add: is_ws_def)
  obtain tail where t: "quote k @ others = CHR 0x22 # tail" by (simp add: quote_def)
  have ws2: "skip_ws (quote k @ others) = CHR 0x22 # tail"
    unfolding t by (simp add: is_ws_def)
  show ?thesis
    by (simp add: ws ws2 del: skip_ws.simps read_members.simps)
qed

lemma read_members_payload3:
  assumes "length xs + 3 < n" "length ys + 4 < n"
  shows "read_members n
     (quote k1 @ CHR '':'' # (JSON_stringify (JArr (map JStr xs)) @ CHR '','' #
       (quote k2 @ CHR '':'' # (JSON_stringify (JArr (map JStr ys)) @ CHR '','' #
       (quote k3 @ CHR '':'' # (JSON_stringify (JBool b) @ CHR ''}'' # rest))))))
     = Some ([(k1, JArr (map JStr xs)), (k2, JArr (map JStr ys)), (k3, JBool b)], rest)"
proof -
  from assms obtain m where n: "n = Suc (Suc (Suc (Suc m)))"
    by (cases n; cases "n - 1"; cases "n - 2"; cases "n - 3") auto
  let ?m3 = "quote k3 @ CHR '':'' # (JSON_stringify (JBool b) @ CHR ''}'' # rest)"
  let ?m2 = "quote k2 @ CHR '':'' # (JSON_stringify (JArr (map JStr ys)) @ CHR '','' # ?m3)"
  have v3: "read_value (Suc m) (JSON_stringify (JBool b) @ CHR ''}'' # rest)
      = Some (JBool b, CHR ''}'' # rest)"
    by (rule read_value_bool)
  have s3: "read_members (Suc (Suc m)) ?m3 = Some ([(k3, JBool b)], rest)"
    using read_members_step[OF v3, of k3] by simp
  have "length ys + 1 < Suc (Suc m)" using assms(2) n by simp
  then have v2: "read_value (Suc (Suc m)) (JSON_stringify (JArr (map JStr ys)) @ CHR '','' # ?m3)
      = Some (JArr (map JStr ys), CHR '','' # ?m3)"
    by (rule read_value_string_array)
  have s2: "read_members (Suc (Suc (Suc m))) ?m2
      = Some ([(k2, JArr (map JStr ys)), (k3, JBool b)], rest)"
    using read_members_step[OF v2, of k2] by (simp only: simp_thms if_True s3 option.map prod.case)
  have "length xs + 1 < Suc (Suc (Suc m))" using assms(1) n by simp
  then have v1: "read_value (Suc (Suc (Suc m))) (JSON_stringify (JArr (map JStr xs)) @ CHR '','' # ?m2)
      = Some (JArr (map JStr xs), CHR '','' # ?m2)"
    by (rule read_value_string_array)
  show ?thesis
    unfolding n
    using read_members_step[OF v1, of k1] by (simp only: simp_thms if_True s2 option.map prod.case)
qed

lemma read_members_payload2:
  assumes "length xs + 3 < n"
  shows "read_members n
     (quote k1 @ CHR '':'' # (JSON_stringify (JArr (map JStr xs)) @ CHR '','' #
       (quote k3 @ CHR '':'' # (JSON_stringify (JBool b) @ CHR ''}'' # rest))))
     = Some ([(k1, JArr (map JStr xs)), (k3, JBool b)], rest)"
proof -
  from assms obtain m where n: "n = Suc (Suc (Suc m))"
    by (cases n; cases "n - 1"; cases "n - 2") auto
  let ?m3 = "quote k3 @ CHR '':'' # (JSON_stringify (JBool b) @ CHR ''}'' # rest)"
  have v3: "read_value (Suc m) (JSON_stringify (JBool b) @ CHR ''}'' # rest)
      = Some (JBool b, CHR ''}'' # rest)"
    by (rule read_value_bool)
  have s3: "read_members (Suc (Suc m)) ?m3 = Some ([(k3, JBool b)], rest)"
    using read_members_step[OF v3, of k3] by simp
  have "length xs + 1 < Suc (Suc m)" using assms(1) n by simp
  then have v1: "read_value (Suc (Suc m)) (JSON_stringify (JArr (map JStr xs)) @ CHR '','' # ?m3)
      = Some (JArr (map JStr xs), CHR '','' # ?m3)"
    by (rule read_value_string_array)
  show ?thesis
    unfolding n
    using read_members_step[OF v1, of k1] by (simp only: simp_thms if_True s3 option.map prod.case)
qed

lemma length_stringify_string_array:
  "length xs + 2 \<le> length (JSON_stringify (JArr (map JStr xs)))"
  using length_commas_quote[of xs] by (simp add: o_def)

lemma read_json_payload3:
  "read_json (JSON_stringify (JObj [(k1, JArr (map JStr xs)), (k2, JArr (map JStr ys)), (k3, JBool b)]))
     = Some (JObj [(k1, JArr (map JStr xs)), (k2, JArr (map JStr ys)), (k3, JBool b)])"
proof -
  let ?members = "quote k1 @ CHR '':'' # (JSON_stringify (JArr (map JStr xs)) @ CHR '','' #
       (quote k2 @ CHR '':'' # (JSON_stringify (JArr (map JStr ys)) @ CHR '','' #
       (quote k3 @ CHR '':'' # (JSON_stringify (JBool b) @ CHR ''}'' # [])))))"
  have len: "length xs + length ys + 4 < length (CHR ''{'' # ?members)"
    using length_stringify_string_array[of xs] length_stringify_string_array[of ys]
      length_quote[of k1] length_quote[of k2] length_quote[of k3]
    by simp
  then have "length xs + 3 < 2 * length (CHR ''{'' # ?members)"
    "length ys + 4 < 2 * length (CHR ''{'' # ?members)" by simp_all
  then have "read_members (2 * length (CHR ''{'' # ?members)) ?members
      = Some ([(k1, JArr (map JStr xs)), (k2, JArr (map JStr ys)), (k3, JBool b)], [])"
    by (rule read_members_payload3)
  then have "read_value (Suc (2 * length (CHR ''{'' # ?members))) (CHR ''{'' # ?members)
      = Some (JObj [(k1, JArr (map JStr xs)), (k2, JArr (map JStr ys)), (k3, JBool b)], [])"
    by (simp only: read_value_object option.map prod.case)
  then show ?thesis
    unfolding read_json_def write_object3 by (simp only: option.case prod.case skip_ws.simps simp_thms if_True)
qed

lemma read_json_payload2:
  "read_json (JSON_stringify (JObj [(k1, JArr (map JStr xs)), (k3, JBool b)]))
     = Some (JObj [(k1, JArr (map JStr xs)), (k3, JBool b)])"
proof -
  let ?members = "quote k1 @ CHR '':'' # (JSON_stringify (JArr (map JStr xs)) @ CHR '','' #
       (quote k3 @ CHR '':'' # (JSON_stringify (JBool b) @ CHR ''}'' # [])))"
  have "length xs + 3 < 2 * length (CHR ''{'' # ?members)"
    using length_stringify_string_array[of xs] length_quote[of k1] length_quote[of k3]
    by simp
  then have "read_members (2 * length (CHR ''{'' # ?members)) ?members
      = Some ([(k1, JArr (map JStr xs)), (k3, JBool b)], [])"
    by (rule read_members_payload2)
  then have "read_value (Suc (2 * length (CHR ''{'' # ?members))) (CHR ''{'' # ?members)
      = Some (JObj [(k1, JArr (map JStr xs)), (k3, JBool b)], [])"
    by (simp only: read_value_object option.map prod.case)
  then show ?thesis
    unfolding read_json_def write_object2 by (simp only: option.case prod.case skip_ws.simps simp_thms if_True)
qed

lemma JSON_stringify_object_not_empty: "JSON_stringify (JObj kvs) \<noteq> []"
  by simp

subsection \<open>The round trip\<close>

text \<open>
  C6. A RestartState that is stringified, handed to \<open>restart\<close> and ingested by
  \<open>restartdata\<close> at the next boot leaves the variables holding exactly the values that were
  serialized: the skipped accounts, the log backlog and the update flag (a flag that is
  \<open>false\<close> is not assigned, and the variable starts as \<open>false\<close>). \<open>restart()\<close> without data
  serializes the controller's skipped accounts and \<open>updateFailed: false\<close>, and these are the
  values restored; the log backlog, which it does not serialize, starts empty.
\<close>

theorem restart_state_round_trip:
  "boot (Some (restart info_skippedaccounts (Some (JSON_stringify (restart_payload p)))))
     = Inr \<lparr>oldconfig = JObj [],
            logafterrestart = JArr (map JStr (logBacklog p)),
            updateFailed = JBool (updateFailedFlag p),
            skippedaccounts = JArr (map JStr (skippedAccounts p))\<rparr>
   \<and> boot (Some (restart info_skippedaccounts None))
     = Inr \<lparr>oldconfig = JObj [],
            logafterrestart = JArr [],
            updateFailed = JBool False,
            skippedaccounts = JArr (map JStr info_skippedaccounts)\<rparr>"
proof
  let ?v = "restart_payload p"
  have ne: "JSON_stringify ?v \<noteq> []"
    unfolding restart_payload_def by (rule JSON_stringify_object_not_empty)
  have parsed: "JSON_parse (JSON_stringify ?v) = Inr ?v"
    by (simp only: JSON_parse_def restart_payload_def read_json_payload3 option.case)
  have "restartdata (JSON_stringify ?v) kept_data_at_start
      = Inr \<lparr>oldconfig = JObj [],
            logafterrestart = JArr (map JStr (logBacklog p)),
            updateFailed = JBool (updateFailedFlag p),
            skippedaccounts = JArr (map JStr (skippedAccounts p))\<rparr>"
    unfolding restartdata_def parsed
    by (simp add: restart_payload_def property_def overwrite_if_truthy_def js_truthy_def
          kept_data_at_start_def)
  then show "boot (Some (restart info_skippedaccounts (Some (JSON_stringify (restart_payload p)))))
     = Inr \<lparr>oldconfig = JObj [],
            logafterrestart = JArr (map JStr (logBacklog p)),
            updateFailed = JBool (updateFailedFlag p),
            skippedaccounts = JArr (map JStr (skippedAccounts p))\<rparr>"
    using ne by (simp only: boot_def restart_def option.case if_False)
next
  let ?v = "JObj [(''skippedaccounts'', JArr (map JStr info_skippedaccounts)),
                  (''updateFailed'', JBool False)]"
  have ne: "JSON_stringify ?v \<noteq> []"
    by (rule JSON_stringify_object_not_empty)
  have parsed: "JSON_parse (JSON_stringify ?v) = Inr ?v"
    by (simp only: JSON_parse_def read_json_payload2 option.case)
  have "restartdata (JSON_stringify ?v) kept_data_at_start
      = Inr \<lparr>oldconfig = JObj [],
            logafterrestart = JArr [],
            updateFailed = JBool False,
            skippedaccounts = JArr (map JStr info_skippedaccounts)\<rparr>"
    unfolding restartdata_def parsed
    by (simp add: property_def overwrite_if_truthy_def js_truthy_def kept_data_at_start_def)
  then show "boot (Some (restart info_skippedaccounts None))
     = Inr \<lparr>oldconfig = JObj [],
            logafterrestart = JArr [],
            updateFailed = JBool False,
            skippedaccounts = JArr (map JStr info_skippedaccounts)\<rparr>"
    using ne by (simp only: boot_def restart_def option.case if_False)
qed

theorem restart_state_round_trip_witness:
  "boot (Some (restart [''acc3'']
       (Some (JSON_stringify (restart_payload
          \<lparr>skippedAccounts = [''acc7''], logBacklog = [''info | ready''],
           updateFailedFlag = True\<rparr>)))))
     = Inr \<lparr>oldconfig = JObj [],
            logafterrestart = JArr [JStr ''info | ready''],
            updateFailed = JBool True,
            skippedaccounts = JArr [JStr ''acc7'']\<rparr>"
  using restart_state_round_trip[of "[''acc3'']"
      "\<lparr>skippedAccounts = [''acc7''], logBacklog = [''info | ready''], updateFailedFlag = True\<rparr>"]
  by simp

end
